theory Spec2Isabelle
  imports
    Complex_Main
    "HOL-Library.Multiset"
    "HOL-Library.Char_ord"
    "HOL-Library.List_Lexorder"
    "HOL-Library.Product_Lexorder"
    "HOL-Library.AList"
begin

section \<open>JavaScript values used by the voting node\<close>

text \<open>
  Strings are lists of 8-bit characters; the model covers ASCII text.
  \<open>String.prototype.toLowerCase\<close> maps the letters \<open>A\<close>..\<open>Z\<close> to \<open>a\<close>..\<open>z\<close>
  and leaves every other character alone.
\<close>

definition toLowerChar :: "char \<Rightarrow> char" where
  "toLowerChar c =
     (if CHR ''A'' \<le> c \<and> c \<le> CHR ''Z'' then char_of (of_char c + (32::nat)) else c)"

definition toLowerCase :: "string \<Rightarrow> string" where
  "toLowerCase s = map toLowerChar s"

text \<open>
  A JavaScript number is a finite value, one of the two infinities, or NaN. Finite
  values are exact rationals, and the products below are exact: the model does not
  round to 64-bit floats. On the whole numbers of seconds and milliseconds of a
  round the source computes the same values; on fractional numbers it rounds, and
  the statements about durations and delays speak of whole numbers only.
\<close>

datatype jsnum = Fin rat | PosInf | NegInf | NaN

text \<open>The comparisons \<open>x < y\<close> and \<open>x > y\<close>; both are false when a side is NaN.\<close>

fun js_lt :: "jsnum \<Rightarrow> jsnum \<Rightarrow> bool" where
  "js_lt NaN _ = False"
| "js_lt _ NaN = False"
| "js_lt (Fin x) (Fin y) = (x < y)"
| "js_lt (Fin x) PosInf = True"
| "js_lt (Fin x) NegInf = False"
| "js_lt PosInf _ = False"
| "js_lt NegInf NegInf = False"
| "js_lt NegInf _ = True"

definition js_gt :: "jsnum \<Rightarrow> jsnum \<Rightarrow> bool" where
  "js_gt x y = js_lt y x"

text \<open>Multiplication by a positive finite constant, as in \<open>x * 1000\<close> and \<open>x * 0.8\<close>.\<close>

fun js_scale :: "jsnum \<Rightarrow> rat \<Rightarrow> jsnum" where
  "js_scale (Fin x) k = Fin (x * k)"
| "js_scale PosInf k = PosInf"
| "js_scale NegInf k = NegInf"
| "js_scale NaN k = NaN"

text \<open>\<open>Math.round\<close>: the nearest integer, halves rounded towards plus infinity.\<close>

definition round_half_up :: "rat \<Rightarrow> rat" where
  "round_half_up x = of_int \<lfloor>x + 1 / 2\<rfloor>"

fun Math_round :: "jsnum \<Rightarrow> jsnum" where
  "Math_round (Fin x) = Fin (round_half_up x)"
| "Math_round PosInf = PosInf"
| "Math_round NegInf = NegInf"
| "Math_round NaN = NaN"

text \<open>The values a caller can pass where a number is expected.\<close>

datatype js_value =
    JNumber jsnum
  | JString string
  | JBoolean bool
  | JNull
  | JUndefined

datatype js_error = TypeError

text \<open>
  A JavaScript \<open>Map\<close> keeps its entries in insertion order: it is an association
  list, \<open>get\<close> is \<^const>\<open>map_of\<close>, and \<open>set\<close> is \<^const>\<open>AList.update\<close>, which
  overwrites an existing key in place and appends a new one. A \<open>Set\<close> is a list
  without repetitions, in insertion order.
\<close>

definition set_add :: "'a \<Rightarrow> 'a list \<Rightarrow> 'a list" where
  "set_add x xs = (if x \<in> set xs then xs else xs @ [x])"

definition map_has :: "('k \<times> 'v) list \<Rightarrow> 'k \<Rightarrow> bool" where
  "map_has m k = (map_of m k \<noteq> None)"

text \<open>
  \<open>Array.prototype.sort\<close> with a comparison function is a stable sort: \<open>a\<close> is
  placed before \<open>b\<close> when \<open>cmp a b < 0\<close>, and elements that compare equal keep
  their order. Stable insertion sort is that function.
\<close>

fun js_insert :: "('a \<Rightarrow> 'a \<Rightarrow> int) \<Rightarrow> 'a \<Rightarrow> 'a list \<Rightarrow> 'a list" where
  "js_insert cmp x [] = [x]"
| "js_insert cmp x (y # ys) = (if cmp x y \<le> 0 then x # y # ys else y # js_insert cmp x ys)"

definition js_sort :: "('a \<Rightarrow> 'a \<Rightarrow> int) \<Rightarrow> 'a list \<Rightarrow> 'a list" where
  "js_sort cmp xs = foldr (js_insert cmp) xs []"

section \<open>Tally\<close>

text \<open>A decrypted ballot, as \<open>decryptAndProcessVotes\<close> stores it.\<close>

record vote =
  v_choice :: string
  v_anonymousVoteId :: string
  v_timestamp :: int
  v_roundId :: string

text \<open>One line \<open>{choice, count}\<close> of a tally.\<close>

record result_entry =
  r_choice :: string
  r_count :: nat

text \<open>The body of the counting loop: \<open>tally.set(choice, (tally.get(choice) || 0) + 1)\<close>.\<close>

definition tally_step :: "string \<Rightarrow> (string \<times> nat) list \<Rightarrow> (string \<times> nat) list" where
  "tally_step c tally =
     AList.update c ((case map_of tally c of None \<Rightarrow> 0 | Some n \<Rightarrow> n) + 1) tally"

text \<open>
  The comparison function handed to \<open>sort\<close>. \<open>String.prototype.localeCompare\<close> is a
  function of the JavaScript runtime; it is the argument \<open>lc\<close>.
\<close>

definition tally_compare ::
  "(string \<Rightarrow> string \<Rightarrow> int) \<Rightarrow> string \<times> nat \<Rightarrow> string \<times> nat \<Rightarrow> int" where
  "tally_compare lc a b =
     (if snd b \<noteq> snd a then int (snd b) - int (snd a) else lc (fst a) (fst b))"

text \<open>\<open>calculateResults\<close> once the map of decrypted votes of the round is at hand.\<close>

definition tally_results ::
  "(string \<Rightarrow> string \<Rightarrow> int) \<Rightarrow> (string \<times> vote) list \<Rightarrow> result_entry list" where
  "tally_results lc roundVotes =
     map (\<lambda>(c, n). \<lparr>r_choice = c, r_count = n\<rparr>)
       (js_sort (tally_compare lc)
          (fold tally_step (map (\<lambda>v. toLowerCase (v_choice v)) (map snd roundVotes)) []))"

fun compareLoop :: "result_entry list \<Rightarrow> result_entry list \<Rightarrow> bool" where
  "compareLoop (a # as) (b # bs) =
     (if r_choice a \<noteq> r_choice b \<or> r_count a \<noteq> r_count b then False else compareLoop as bs)"
| "compareLoop _ _ = True"

definition compareResults :: "result_entry list \<Rightarrow> result_entry list \<Rightarrow> bool" where
  "compareResults results1 results2 =
     (if length results1 \<noteq> length results2 then False else compareLoop results1 results2)"

section \<open>State of a node\<close>

datatype phase = VOTING | CONSENSUS | FINISHED

text \<open>
  What a pending timer will call. The source passes closures to \<open>setTimeout\<close>; each
  constructor names the method the closure calls, with the values it captured.
\<close>

datatype timer_action =
    EnterConsensusPhase
  | FinishRound
  | CheckIfReadyToPropose
  | BroadcastBatchVoteKeys "(string \<times> string) list"
  | ConnectToPeer string nat
  | ProcessExit

text \<open>
  The round object \<open>this.currentRound\<close>. Its field \<open>id\<close> is \<open>roundId\<close> here and its
  field \<open>results\<close> is \<open>roundResults\<close>; its field \<open>votes\<close> is never read and is left out.
  The two timeout fields hold timer handles.
\<close>

record voting_round =
  roundId :: string
  topic :: string
  allowedChoices :: "string list option"
  startTime :: int
  duration :: jsnum
  votingTimeSeconds :: jsnum
  phase :: phase
  roundResults :: "result_entry list option"
  consensusAchieved :: bool
  consensusNodes :: "string list"
  consensusTimeout :: "nat option"
  finishTimeout :: "nat option"

text \<open>
  A WebSocket as the node sees it: an identity, the remote address of its socket,
  whether \<open>readyState\<close> is \<open>OPEN\<close>, and whether a \<open>send\<close> inside a
  \<open>try\<close> block throws.
\<close>

record websocket =
  ws_id :: nat
  remoteAddress :: "string option"
  readyStateOpen :: bool
  sendThrows :: bool

text \<open>The \<open>ENCRYPTED_VOTE\<close> frame; it has no \<open>from\<close> field.\<close>

record encrypted_vote_msg =
  ev_roundId :: string
  ev_anonymousVoteId :: string
  ev_encryptedData :: string
  ev_iv :: string
  ev_timestamp :: int
  ev_signature :: string

text \<open>
  An entry of the key map of a round. \<open>castVote\<close> writes \<open>{key, submittedBy}\<close>, the
  two key handlers write \<open>{key, keyProvider}\<close>.
\<close>

record key_data =
  kd_key :: string
  kd_submittedBy :: "string option"
  kd_keyProvider :: "string option"

record vote_tracking =
  vt_anonymousVoteId :: string
  vt_choice :: string
  vt_timestamp :: int
  vt_verified :: bool

record peer_info =
  pi_nodeId :: "string option"
  pi_host :: "string option"
  pi_port :: "nat option"

text \<open>
  The frames of the mesh and of the voting protocol, with the fields the handlers read.
  Arguments, in order:
  \<^item> \<open>HANDSHAKE\<close>, \<open>HANDSHAKE_ACK\<close>: from, port, knownPeers;
  \<^item> \<open>PEER_EXCHANGE_REQUEST\<close>, \<open>HEARTBEAT\<close>: from;
  \<^item> \<open>PEER_EXCHANGE_RESPONSE\<close>: from, peers;
  \<^item> \<open>DUPLICATE_NODE_REJECTION\<close>: existingNodeId;
  \<^item> \<open>ROUND_START\<close>: roundId, topic, allowedChoices, votingTimeSeconds (absent or a
    number), startTime, from;
  \<^item> \<open>BATCH_VOTE_KEYS\<close>: roundId, keys (pairs of anonymousVoteId and key), from;
  \<^item> \<open>VOTE_KEY\<close>: roundId, anonymousVoteId, key, from;
  \<^item> \<open>RESULT_PROPOSAL\<close>: roundId, results, voteCount, from;
  \<^item> \<open>OTHER\<close>: a frame of any other type, with its type and from.
\<close>

datatype message =
    HANDSHAKE string "nat option" "peer_info list"
  | HANDSHAKE_ACK string "nat option" "peer_info list"
  | PEER_EXCHANGE_REQUEST string
  | PEER_EXCHANGE_RESPONSE string "peer_info list"
  | HEARTBEAT string
  | DUPLICATE_NODE_REJECTION string
  | ROUND_START string string "string list option" "rat option" int string
  | ENCRYPTED_VOTE encrypted_vote_msg
  | BATCH_VOTE_KEYS string "(string \<times> string) list" string
  | VOTE_KEY string string string string
  | RESULT_PROPOSAL string "result_entry list" nat string
  | OTHER string string

fun msg_from :: "message \<Rightarrow> string option" where
  "msg_from (HANDSHAKE f _ _) = Some f"
| "msg_from (HANDSHAKE_ACK f _ _) = Some f"
| "msg_from (PEER_EXCHANGE_REQUEST f) = Some f"
| "msg_from (PEER_EXCHANGE_RESPONSE f _) = Some f"
| "msg_from (HEARTBEAT f) = Some f"
| "msg_from (DUPLICATE_NODE_REJECTION _) = None"
| "msg_from (ROUND_START _ _ _ _ _ f) = Some f"
| "msg_from (ENCRYPTED_VOTE _) = None"
| "msg_from (BATCH_VOTE_KEYS _ _ f) = Some f"
| "msg_from (VOTE_KEY _ _ _ f) = Some f"
| "msg_from (RESULT_PROPOSAL _ _ _ f) = Some f"
| "msg_from (OTHER _ f) = Some f"

text \<open>The events \<open>notifyGUIClients\<close> sends to observers, with their data.\<close>

datatype notification =
    VOTE_RECEIVED string string nat
  | PHASE_CHANGE phase string "nat option"
  | RESULTS "result_entry list" string string nat nat nat
  | ROUND_START_EVENT string string "string list option" rat int string

text \<open>
  Everything the node writes to a socket, in order: a frame sent on a peer link, a
  link closed, a frame mirrored to an observer by \<open>broadcast\<close>, an event sent to an
  observer by \<open>notifyGUIClients\<close> with its timestamp.
\<close>

datatype wire_output =
    Sent nat message
  | Closed nat
  | GuiMirror string message
  | GuiNotify string notification int

text \<open>
  The fields of the node object that the mesh and the round engine use. The maps
  keyed by round id are partial functions; the inner maps keep insertion order.
  \<open>timers\<close> holds the pending \<open>setTimeout\<close> calls as (handle, delay, action),
  \<open>nextTimer\<close> is the next fresh handle, and \<open>outbox\<close> records what was sent.
\<close>

record node =
  nodeId :: string
  port :: nat
  knownPeers :: "(string \<times> nat) list"
  peers :: "(string \<times> websocket) list"
  activePeers :: "string list"
  peerAddresses :: "(string \<times> (string \<times> nat)) list"
  nodeRegistry :: "(string \<times> (int \<times> websocket)) list"
  guiClients :: "(string \<times> websocket) list"
  currentRound :: "voting_round option"
  votes :: "string \<Rightarrow> (string \<times> vote) list option"
  encryptedVotes :: "string \<Rightarrow> (string \<times> encrypted_vote_msg) list option"
  voteKeys :: "string \<Rightarrow> (string \<times> key_data) list option"
  results :: "(string \<times> result_entry list) list"
  myVoteTracking :: "string \<Rightarrow> vote_tracking option"
  hasVotedInRound :: "string \<Rightarrow> bool option"
  resultProposed :: bool
  keysSharingComplete :: bool
  duplicateNodeDetected :: bool
  timers :: "(nat \<times> jsnum \<times> timer_action) list"
  nextTimer :: nat
  outbox :: "wire_output list"

text \<open>The node the constructor builds.\<close>

definition initial_node :: "string \<Rightarrow> nat \<Rightarrow> (string \<times> nat) list \<Rightarrow> node" where
  "initial_node nid p known =
     \<lparr>nodeId = nid, port = p, knownPeers = known, peers = [], activePeers = [],
      peerAddresses = [], nodeRegistry = [], guiClients = [], currentRound = None,
      votes = Map.empty, encryptedVotes = Map.empty, voteKeys = Map.empty, results = [],
      myVoteTracking = Map.empty, hasVotedInRound = Map.empty, resultProposed = False,
      keysSharingComplete = False, duplicateNodeDetected = False, timers = [],
      nextTimer = 0, outbox = []\<rparr>"

section \<open>Timers, broadcast and notification\<close>

definition setTimeout :: "timer_action \<Rightarrow> jsnum \<Rightarrow> node \<Rightarrow> nat \<times> node" where
  "setTimeout a d s =
     (nextTimer s, s\<lparr>timers := timers s @ [(nextTimer s, d, a)], nextTimer := Suc (nextTimer s)\<rparr>)"

definition clearTimeout :: "nat \<Rightarrow> node \<Rightarrow> node" where
  "clearTimeout h s = s\<lparr>timers := filter (\<lambda>t. fst t \<noteq> h) (timers s)\<rparr>"

text \<open>\<open>if (handle) clearTimeout(handle)\<close> on a field that is \<open>null\<close> or a handle.\<close>

definition clearIfSet :: "nat option \<Rightarrow> node \<Rightarrow> node" where
  "clearIfSet h s = (case h of None \<Rightarrow> s | Some t \<Rightarrow> clearTimeout t s)"

definition getActiveNodeCount :: "node \<Rightarrow> nat" where
  "getActiveNodeCount s = length (activePeers s) + 1"

text \<open>The types \<open>broadcast\<close> mirrors to observers.\<close>

fun shouldSendToGUI :: "message \<Rightarrow> bool" where
  "shouldSendToGUI (ROUND_START _ _ _ _ _ _) = True"
| "shouldSendToGUI (ENCRYPTED_VOTE _) = True"
| "shouldSendToGUI (RESULT_PROPOSAL _ _ _ _) = True"
| "shouldSendToGUI (OTHER t _) = (t \<in> {''PHASE_CHANGE'', ''RESULTS'', ''STATUS_UPDATE''})"
| "shouldSendToGUI _ = False"

text \<open>
  \<open>broadcast\<close>: every peer that is active and whose socket is open gets the frame; a
  send that throws removes that peer from \<open>activePeers\<close>. Voting frames are mirrored to
  the open observers, and an observer whose send throws is dropped.
\<close>

definition broadcast :: "message \<Rightarrow> node \<Rightarrow> node" where
  "broadcast m s =
     (let targets = filter (\<lambda>(peerId, ws). peerId \<in> set (activePeers s) \<and> readyStateOpen ws) (peers s);
          failed = map fst (filter (\<lambda>(peerId, ws). sendThrows ws) targets);
          delivered = filter (\<lambda>(peerId, ws). \<not> sendThrows ws) targets;
          observers = (if shouldSendToGUI m
                       then filter (\<lambda>(clientId, ws). readyStateOpen ws) (guiClients s) else []);
          dropped = map fst (filter (\<lambda>(clientId, ws). sendThrows ws) observers);
          mirrored = filter (\<lambda>(clientId, ws). \<not> sendThrows ws) observers
      in s\<lparr>activePeers := filter (\<lambda>p. p \<notin> set failed) (activePeers s),
            guiClients := filter (\<lambda>(clientId, ws). clientId \<notin> set dropped) (guiClients s),
            outbox := outbox s @ map (\<lambda>(peerId, ws). Sent (ws_id ws) m) delivered
                        @ map (\<lambda>(clientId, ws). GuiMirror clientId m) mirrored\<rparr>)"

definition notifyGUIClients :: "notification \<Rightarrow> int \<Rightarrow> node \<Rightarrow> node" where
  "notifyGUIClients n now s =
     (let observers = filter (\<lambda>(clientId, ws). readyStateOpen ws) (guiClients s);
          dropped = map fst (filter (\<lambda>(clientId, ws). sendThrows ws) observers);
          notified = filter (\<lambda>(clientId, ws). \<not> sendThrows ws) observers
      in s\<lparr>guiClients := filter (\<lambda>(clientId, ws). clientId \<notin> set dropped) (guiClients s),
            outbox := outbox s @ map (\<lambda>(clientId, ws). GuiNotify clientId n now) notified\<rparr>)"

text \<open>The state a call leaves behind, whether it returned or threw.\<close>

fun state_of :: "(js_error \<times> node) + node \<Rightarrow> node" where
  "state_of (Inl (e, s)) = s"
| "state_of (Inr s) = s"

section \<open>Encryption utilities\<close>

text \<open>
  The functions of the runtime that the node calls, as parameters of the model:
  AES-256-CBC of the \<open>crypto\<close> module with key and IV in hexadecimal (\<open>decipher\<close>
  gives \<open>None\<close> where the library throws), SHA-256 in hexadecimal, and JSON on the
  ballot record (\<open>JSON_parse\<close> gives \<open>None\<close> where parsing throws or yields a value
  that the test \<open>if (decryptedData)\<close> rejects), and \<open>String.prototype.localeCompare\<close>,
  the comparison of two strings by the collation of the runtime: negative, zero or
  positive.
\<close>

record runtime =
  cipher :: "string \<Rightarrow> string \<Rightarrow> string \<Rightarrow> string"
  decipher :: "string \<Rightarrow> string \<Rightarrow> string \<Rightarrow> string option"
  sha256_hex :: "string \<Rightarrow> string"
  JSON_stringify :: "vote \<Rightarrow> string"
  JSON_parse :: "string \<Rightarrow> vote option"
  localeCompare :: "string \<Rightarrow> string \<Rightarrow> int"

record encrypted_vote =
  ec_encryptedData :: string
  ec_key :: string
  ec_iv :: string
  ec_anonymousVoteId :: string

text \<open>
  \<open>encryptVote\<close>; the three random values (key, IV, anonymous id, in hexadecimal) and
  the clock reading are arguments.
\<close>

definition encryptVote ::
  "runtime \<Rightarrow> string \<Rightarrow> string \<Rightarrow> string \<Rightarrow> string \<Rightarrow> string \<Rightarrow> int \<Rightarrow> encrypted_vote" where
  "encryptVote lib choice rid key iv anonymousVoteId now =
     (let voteData = JSON_stringify lib
            \<lparr>v_choice = choice, v_anonymousVoteId = anonymousVoteId,
             v_timestamp = now, v_roundId = rid\<rparr>
      in \<lparr>ec_encryptedData = cipher lib key iv voteData, ec_key = key, ec_iv = iv,
          ec_anonymousVoteId = anonymousVoteId\<rparr>)"

text \<open>\<open>decryptVote\<close>: the \<open>catch\<close> turns every failure into \<open>null\<close>.\<close>

definition decryptVote :: "runtime \<Rightarrow> string \<Rightarrow> string \<Rightarrow> string \<Rightarrow> vote option" where
  "decryptVote lib encryptedData keyHex ivHex =
     (case decipher lib keyHex ivHex encryptedData of
        None \<Rightarrow> None
      | Some decrypted \<Rightarrow> JSON_parse lib decrypted)"

definition signMessage :: "runtime \<Rightarrow> node \<Rightarrow> string \<Rightarrow> string" where
  "signMessage lib s m = sha256_hex lib (nodeId s @ ''_'' @ m)"

section \<open>Private voting logic\<close>

text \<open>The inner map of a round, taken as empty where the source creates it on demand.\<close>

definition round_map :: "(string \<Rightarrow> 'a list option) \<Rightarrow> string \<Rightarrow> 'a list" where
  "round_map f rid = (case f rid of None \<Rightarrow> [] | Some m \<Rightarrow> m)"

text \<open>
  \<open>castVote\<close> returns nothing; the outcome names the message it logs. The readings of
  the clock within one call are one value.
\<close>

datatype vote_outcome = NoActiveVotingRound | AlreadyVoted | InvalidChoice | VoteCast

definition castVote ::
  "runtime \<Rightarrow> string \<Rightarrow> string \<Rightarrow> string \<Rightarrow> string \<Rightarrow> int \<Rightarrow> node \<Rightarrow> vote_outcome \<times> node" where
  "castVote lib choice key iv anonymousVoteId now s =
     (case currentRound s of
        None \<Rightarrow> (NoActiveVotingRound, s)
      | Some r \<Rightarrow>
          if phase r \<noteq> VOTING then (NoActiveVotingRound, s)
          else if hasVotedInRound s (roundId r) = Some True then (AlreadyVoted, s)
          else if (case allowedChoices r of
                     None \<Rightarrow> False
                   | Some cs \<Rightarrow> toLowerCase choice \<notin> set (map toLowerCase cs))
          then (InvalidChoice, s)
          else
            let rid = roundId r;
                s1 = s\<lparr>hasVotedInRound := (hasVotedInRound s)(rid \<mapsto> True)\<rparr>;
                encryptedVote = encryptVote lib choice rid key iv anonymousVoteId now;
                s2 = s1\<lparr>voteKeys := (voteKeys s1)(rid \<mapsto>
                        AList.update (ec_anonymousVoteId encryptedVote)
                          \<lparr>kd_key = ec_key encryptedVote, kd_submittedBy = Some (nodeId s1),
                           kd_keyProvider = None\<rparr>
                          (round_map (voteKeys s1) rid))\<rparr>;
                s3 = s2\<lparr>myVoteTracking := (myVoteTracking s2)(rid \<mapsto>
                        \<lparr>vt_anonymousVoteId = ec_anonymousVoteId encryptedVote, vt_choice = choice,
                         vt_timestamp = now, vt_verified = False\<rparr>)\<rparr>;
                encryptedMessage =
                  \<lparr>ev_roundId = rid, ev_anonymousVoteId = ec_anonymousVoteId encryptedVote,
                   ev_encryptedData = ec_encryptedData encryptedVote, ev_iv = ec_iv encryptedVote,
                   ev_timestamp = now,
                   ev_signature = signMessage lib s3 (rid @ ''_'' @ ec_encryptedData encryptedVote)\<rparr>;
                s4 = broadcast (ENCRYPTED_VOTE encryptedMessage) s3;
                s5 = s4\<lparr>encryptedVotes := (encryptedVotes s4)(rid \<mapsto>
                        AList.update (ec_anonymousVoteId encryptedVote) encryptedMessage
                          (round_map (encryptedVotes s4) rid))\<rparr>
            in (VoteCast, s5))"

text \<open>\<open>handleEncryptedVote\<close>; the signature check in it has an empty body.\<close>

definition handleEncryptedVote :: "encrypted_vote_msg \<Rightarrow> node \<Rightarrow> node" where
  "handleEncryptedVote m s =
     (case currentRound s of
        None \<Rightarrow> s
      | Some r \<Rightarrow>
          if ev_roundId m \<noteq> roundId r then s
          else if phase r \<noteq> VOTING then s
          else s\<lparr>encryptedVotes := (encryptedVotes s)(roundId r \<mapsto>
                   AList.update (ev_anonymousVoteId m) m (round_map (encryptedVotes s) (roundId r)))\<rparr>)"

text \<open>
  \<open>shuffleArray\<close>: for \<open>i\<close> from the last index down to 1, swap position \<open>i\<close> with
  position \<open>floor (Math.random() * (i + 1))\<close>. \<open>rnd i\<close> is the value \<open>Math.random()\<close>
  returns in the iteration for index \<open>i\<close>.
\<close>

definition swap :: "nat \<Rightarrow> nat \<Rightarrow> 'a list \<Rightarrow> 'a list" where
  "swap i j xs = (xs[i := xs ! j])[j := xs ! i]"

fun shuffleLoop :: "nat \<Rightarrow> (nat \<Rightarrow> rat) \<Rightarrow> 'a list \<Rightarrow> 'a list" where
  "shuffleLoop 0 rnd xs = xs"
| "shuffleLoop (Suc i) rnd xs =
     shuffleLoop i rnd (swap (Suc i) (nat \<lfloor>rnd (Suc i) * (of_nat (Suc i) + 1)\<rfloor>) xs)"

definition shuffleArray :: "(nat \<Rightarrow> rat) \<Rightarrow> 'a list \<Rightarrow> 'a list" where
  "shuffleArray rnd xs = shuffleLoop (length xs - 1) rnd xs"

text \<open>
  \<open>shareAllKeys\<close>: the pairs of the key map of the current round, shuffled, go into a
  timer that broadcasts them after \<open>Math.random() * 1000 + 500\<close> milliseconds;
  \<open>delayDraw\<close> is that value of \<open>Math.random()\<close>.
\<close>

definition shareAllKeys :: "(nat \<Rightarrow> rat) \<Rightarrow> rat \<Rightarrow> node \<Rightarrow> (js_error \<times> node) + node" where
  "shareAllKeys rnd delayDraw s =
     (case currentRound s of
        None \<Rightarrow> Inl (TypeError, s)
      | Some r \<Rightarrow>
          let allKeys = map (\<lambda>(anonymousVoteId, keyData). (anonymousVoteId, kd_key keyData))
                          (round_map (voteKeys s) (roundId r));
              shuffled = shuffleArray rnd allKeys
          in Inr (snd (setTimeout (BroadcastBatchVoteKeys shuffled)
                         (Fin (delayDraw * 1000 + 500)) s)))"

definition enterConsensusPhase :: "(nat \<Rightarrow> rat) \<Rightarrow> rat \<Rightarrow> int \<Rightarrow> node \<Rightarrow> (js_error \<times> node) + node" where
  "enterConsensusPhase rnd delayDraw now s =
     (case currentRound s of
        None \<Rightarrow> Inr s
      | Some r \<Rightarrow>
          if phase r \<noteq> VOTING then Inr s
          else
            let s1 = s\<lparr>currentRound := Some (r\<lparr>phase := CONSENSUS\<rparr>),
                       resultProposed := False, keysSharingComplete := False\<rparr>
            in case shareAllKeys rnd delayDraw s1 of
                 Inl e \<Rightarrow> Inl e
               | Inr s2 \<Rightarrow>
                   let s3 = snd (setTimeout CheckIfReadyToPropose (Fin 10000) s2)
                   in Inr (notifyGUIClients
                             (PHASE_CHANGE CONSENSUS (roundId r)
                                (Some (length (round_map (encryptedVotes s3) (roundId r)))))
                             now s3))"

text \<open>The timer that \<open>shareAllKeys\<close> armed fires: it reads the id of the round that is current then.\<close>

definition broadcastBatchVoteKeys :: "(string \<times> string) list \<Rightarrow> node \<Rightarrow> (js_error \<times> node) + node" where
  "broadcastBatchVoteKeys allKeys s =
     (case currentRound s of
        None \<Rightarrow> Inl (TypeError, s)
      | Some r \<Rightarrow> Inr (broadcast (BATCH_VOTE_KEYS (roundId r) allKeys (nodeId s)) s))"

text \<open>The loop of \<open>decryptAndProcessVotes\<close> over the encrypted votes of the round.\<close>

fun decryptLoop ::
  "runtime \<Rightarrow> (string \<times> key_data) list \<Rightarrow> (string \<times> encrypted_vote_msg) list \<Rightarrow>
   (string \<times> vote) list \<Rightarrow> (string \<times> vote) list" where
  "decryptLoop lib roundKeys [] decryptedVotes = decryptedVotes"
| "decryptLoop lib roundKeys ((anonymousVoteId, encryptedVote) # rest) decryptedVotes =
     (case map_of roundKeys anonymousVoteId of
        None \<Rightarrow> decryptLoop lib roundKeys rest decryptedVotes
      | Some keyData \<Rightarrow>
          if map_has decryptedVotes anonymousVoteId
          then decryptLoop lib roundKeys rest decryptedVotes
          else (case decryptVote lib (ev_encryptedData encryptedVote) (kd_key keyData)
                       (ev_iv encryptedVote) of
                  None \<Rightarrow> decryptLoop lib roundKeys rest decryptedVotes
                | Some decryptedData \<Rightarrow>
                    decryptLoop lib roundKeys rest
                      (AList.update anonymousVoteId decryptedData decryptedVotes)))"

definition decryptAndProcessVotes :: "runtime \<Rightarrow> node \<Rightarrow> node" where
  "decryptAndProcessVotes lib s =
     (case currentRound s of
        None \<Rightarrow> s
      | Some r \<Rightarrow>
          (case encryptedVotes s (roundId r) of
             None \<Rightarrow> s
           | Some roundEncrypted \<Rightarrow>
               (case voteKeys s (roundId r) of
                  None \<Rightarrow> s
                | Some roundKeys \<Rightarrow>
                    s\<lparr>votes := (votes s)(roundId r \<mapsto>
                         decryptLoop lib roundKeys roundEncrypted
                           (round_map (votes s) (roundId r)))\<rparr>)))"

section \<open>Results and consensus\<close>

text \<open>
  \<open>calculateResults\<close> reads the decrypted votes of the current round; it throws where
  there is no round or no map for it.
\<close>

definition calculateResults :: "runtime \<Rightarrow> node \<Rightarrow> js_error + result_entry list" where
  "calculateResults lib s =
     (case currentRound s of
        None \<Rightarrow> Inl TypeError
      | Some r \<Rightarrow>
          (case votes s (roundId r) of
             None \<Rightarrow> Inl TypeError
           | Some roundVotes \<Rightarrow> Inr (tally_results (localeCompare lib) roundVotes)))"

definition checkForConsensus :: "node \<Rightarrow> node" where
  "checkForConsensus s =
     (case currentRound s of
        None \<Rightarrow> s
      | Some r \<Rightarrow>
          if phase r \<noteq> CONSENSUS \<or> consensusAchieved r then s
          else
            let activeNodeCount = getActiveNodeCount s;
                consensusCount = length (consensusNodes r)
            in if consensusCount \<ge> activeNodeCount
               then
                 let s1 = s\<lparr>currentRound := Some (r\<lparr>consensusAchieved := True\<rparr>)\<rparr>;
                     s2 = clearIfSet (finishTimeout r) s1
                 in snd (setTimeout FinishRound (Fin 500) s2)
               else s)"

definition proposeResults :: "runtime \<Rightarrow> node \<Rightarrow> (js_error \<times> node) + node" where
  "proposeResults lib s =
     (case currentRound s of
        None \<Rightarrow> Inr s
      | Some r \<Rightarrow>
          if phase r \<noteq> CONSENSUS \<or> resultProposed s then Inr s
          else
            let s1 = s\<lparr>resultProposed := True\<rparr>;
                s2 = decryptAndProcessVotes lib s1
            in case calculateResults lib s2 of
                 Inl e \<Rightarrow> Inl (e, s2)
               | Inr res \<Rightarrow>
                   let proposal = RESULT_PROPOSAL (roundId r) res
                                    (length (round_map (votes s2) (roundId r))) (nodeId s2);
                       s3 = broadcast proposal s2;
                       s4 = s3\<lparr>currentRound :=
                               map_option (\<lambda>c. c\<lparr>consensusNodes := set_add (nodeId s3) (consensusNodes c)\<rparr>)
                                 (currentRound s3)\<rparr>
                   in Inr (checkForConsensus s4))"

text \<open>The set of key providers that \<open>checkIfReadyToPropose\<close> collects.\<close>

definition uniqueKeyProviders :: "string \<Rightarrow> (string \<times> key_data) list \<Rightarrow> string list" where
  "uniqueKeyProviders self roundKeys =
     (let providers =
            fold (\<lambda>(anonymousVoteId, keyData) acc.
                    case kd_keyProvider keyData of
                      None \<Rightarrow> acc
                    | Some p \<Rightarrow> if p = [] then acc else set_add p acc)
                 roundKeys []
      in if length roundKeys > 0 then set_add self providers else providers)"

definition checkIfReadyToPropose :: "runtime \<Rightarrow> node \<Rightarrow> (js_error \<times> node) + node" where
  "checkIfReadyToPropose lib s =
     (case currentRound s of
        None \<Rightarrow> Inr s
      | Some r \<Rightarrow>
          if phase r \<noteq> CONSENSUS \<or> resultProposed s then Inr s
          else
            (case encryptedVotes s (roundId r) of
               None \<Rightarrow> Inr (snd (setTimeout CheckIfReadyToPropose (Fin 3000) s))
             | Some roundEncrypted \<Rightarrow>
                 (case voteKeys s (roundId r) of
                    None \<Rightarrow> Inr (snd (setTimeout CheckIfReadyToPropose (Fin 3000) s))
                  | Some roundKeys \<Rightarrow>
                      let totalEncryptedVotes = length roundEncrypted;
                          totalKeys = length roundKeys;
                          activeNodes = getActiveNodeCount s;
                          providers = uniqueKeyProviders (nodeId s) roundKeys;
                          hasAllKeys = (totalKeys \<ge> totalEncryptedVotes);
                          hasAllProviders = (length providers \<ge> activeNodes)
                      in if hasAllKeys \<and> hasAllProviders
                         then
                           if \<not> keysSharingComplete s
                           then Inr (snd (setTimeout CheckIfReadyToPropose (Fin 3000)
                                            (s\<lparr>keysSharingComplete := True\<rparr>)))
                           else proposeResults lib s
                         else Inr (snd (setTimeout CheckIfReadyToPropose (Fin 3000) s)))))"

text \<open>
  The loop of \<open>handleBatchVoteKeys\<close> over the keys of a batch: a key whose id is
  already in the map is skipped; the result is the map and the number of new keys.
\<close>

fun mergeKeys ::
  "string \<Rightarrow> (string \<times> string) list \<Rightarrow> (string \<times> key_data) list \<Rightarrow> nat \<Rightarrow>
   (string \<times> key_data) list \<times> nat" where
  "mergeKeys sender [] roundKeys newKeysCount = (roundKeys, newKeysCount)"
| "mergeKeys sender ((anonymousVoteId, key) # rest) roundKeys newKeysCount =
     (if map_has roundKeys anonymousVoteId
      then mergeKeys sender rest roundKeys newKeysCount
      else mergeKeys sender rest
             (AList.update anonymousVoteId
                \<lparr>kd_key = key, kd_submittedBy = None, kd_keyProvider = Some sender\<rparr> roundKeys)
             (newKeysCount + 1))"

definition handleBatchVoteKeys ::
  "runtime \<Rightarrow> string \<Rightarrow> (string \<times> string) list \<Rightarrow> string \<Rightarrow> node \<Rightarrow> (js_error \<times> node) + node" where
  "handleBatchVoteKeys lib rid keys sender s =
     (case currentRound s of
        None \<Rightarrow> Inr s
      | Some r \<Rightarrow>
          if rid \<noteq> roundId r then Inr s
          else if phase r \<noteq> CONSENSUS then Inr s
          else
            let merged = mergeKeys sender keys (round_map (voteKeys s) (roundId r)) 0;
                s1 = s\<lparr>voteKeys := (voteKeys s)(roundId r \<mapsto> fst merged)\<rparr>
            in if snd merged > 0
               then
                 let s2 = decryptAndProcessVotes lib s1
                 in if \<not> resultProposed s2 then checkIfReadyToPropose lib s2 else Inr s2
               else Inr s1)"

definition handleVoteKey ::
  "runtime \<Rightarrow> string \<Rightarrow> string \<Rightarrow> string \<Rightarrow> string \<Rightarrow> node \<Rightarrow> (js_error \<times> node) + node" where
  "handleVoteKey lib rid anonymousVoteId key sender s =
     (case currentRound s of
        None \<Rightarrow> Inr s
      | Some r \<Rightarrow>
          if rid \<noteq> roundId r then Inr s
          else if phase r \<noteq> CONSENSUS then Inr s
          else
            let roundKeys = round_map (voteKeys s) (roundId r)
            in if map_has roundKeys anonymousVoteId
               then Inr (s\<lparr>voteKeys := (voteKeys s)(roundId r \<mapsto> roundKeys)\<rparr>)
               else
                 let s1 = s\<lparr>voteKeys := (voteKeys s)(roundId r \<mapsto>
                              AList.update anonymousVoteId
                                \<lparr>kd_key = key, kd_submittedBy = None, kd_keyProvider = Some sender\<rparr>
                                roundKeys)\<rparr>;
                     s2 = decryptAndProcessVotes lib s1
                 in if \<not> resultProposed s2 then checkIfReadyToPropose lib s2 else Inr s2)"

definition handleResultProposal ::
  "runtime \<Rightarrow> string \<Rightarrow> result_entry list \<Rightarrow> string \<Rightarrow> node \<Rightarrow> (js_error \<times> node) + node" where
  "handleResultProposal lib rid theirResults sender s =
     (case currentRound s of
        None \<Rightarrow> Inr s
      | Some r \<Rightarrow>
          if rid \<noteq> roundId r then Inr s
          else
            (case calculateResults lib s of
               Inl e \<Rightarrow> Inl (e, s)
             | Inr myResults \<Rightarrow>
                 if compareResults myResults theirResults
                 then
                   let r1 = r\<lparr>consensusNodes := set_add sender (consensusNodes r)\<rparr>;
                       r2 = (if nodeId s \<notin> set (consensusNodes r1)
                             then r1\<lparr>consensusNodes := set_add (nodeId s) (consensusNodes r1)\<rparr>
                             else r1)
                   in Inr (checkForConsensus (s\<lparr>currentRound := Some r2\<rparr>))
                 else Inr s))"

section \<open>Finishing a round\<close>

text \<open>
  \<open>verifyMyVote\<close> runs inside \<open>finishRound\<close>, after \<open>calculateResults\<close> has returned, so
  the map of decrypted votes of the round exists when it is read.
\<close>

definition verifyMyVote :: "node \<Rightarrow> node" where
  "verifyMyVote s =
     (case currentRound s of
        None \<Rightarrow> s
      | Some r \<Rightarrow>
          (case myVoteTracking s (roundId r) of
             None \<Rightarrow> s
           | Some myVoteInfo \<Rightarrow>
               (case map_of (round_map (votes s) (roundId r)) (vt_anonymousVoteId myVoteInfo) of
                  None \<Rightarrow> s
                | Some recordedVote \<Rightarrow>
                    if toLowerCase (v_choice recordedVote) = toLowerCase (vt_choice myVoteInfo)
                    then s\<lparr>myVoteTracking := (myVoteTracking s)(roundId r \<mapsto>
                             myVoteInfo\<lparr>vt_verified := True\<rparr>)\<rparr>
                    else s)))"

definition countParticipatingNodes :: "node \<Rightarrow> nat" where
  "countParticipatingNodes s =
     (case currentRound s of
        None \<Rightarrow> 0
      | Some r \<Rightarrow> length (round_map (encryptedVotes s) (roundId r)))"

text \<open>
  \<open>finishRound\<close>. The shuffle in it only orders the lines it prints and is left out.
\<close>

definition finishRound :: "runtime \<Rightarrow> int \<Rightarrow> node \<Rightarrow> (js_error \<times> node) + node" where
  "finishRound lib now s =
     (case currentRound s of
        None \<Rightarrow> Inr s
      | Some r \<Rightarrow>
          if phase r = FINISHED then Inr s
          else
            let s1 = clearIfSet (consensusTimeout r) s;
                s2 = clearIfSet (finishTimeout r) s1;
                s3 = s2\<lparr>currentRound := Some (r\<lparr>phase := FINISHED\<rparr>)\<rparr>
            in case calculateResults lib s3 of
                 Inl e \<Rightarrow> Inl (e, s3)
               | Inr res \<Rightarrow>
                   let s4 = s3\<lparr>currentRound := Some (r\<lparr>phase := FINISHED, roundResults := Some res\<rparr>)\<rparr>;
                       totalVotes = length (round_map (votes s4) (roundId r));
                       s5 = verifyMyVote s4;
                       participatedNodes = countParticipatingNodes s5;
                       s6 = s5\<lparr>results := AList.update (roundId r) res (results s5)\<rparr>;
                       s7 = notifyGUIClients
                              (RESULTS res (roundId r) (topic r) totalVotes (getActiveNodeCount s6)
                                 participatedNodes)
                              now s6
                   in Inr (notifyGUIClients (PHASE_CHANGE FINISHED (roundId r) None) now s7))"

section \<open>Voting rounds\<close>

text \<open>The decimal numeral of a clock reading, as a template string prints it.\<close>

fun decimal_nat :: "nat \<Rightarrow> string" where
  "decimal_nat n =
     (if n < 10 then [char_of (48 + n)] else decimal_nat (n div 10) @ [char_of (48 + n mod 10)])"

declare decimal_nat.simps [simp del]

definition decimal :: "int \<Rightarrow> string" where
  "decimal i = (if i < 0 then ''-'' @ decimal_nat (nat (- i)) else decimal_nat (nat i))"

text \<open>
  The check at the head of \<open>startVotingRound\<close>, with the default of the parameter: an
  argument that is \<open>undefined\<close> takes the default 100 before the check runs.
\<close>

definition validVotingTime :: "js_value \<Rightarrow> jsnum" where
  "validVotingTime votingTimeSeconds' =
     (case votingTimeSeconds' of
        JUndefined \<Rightarrow> Fin 100
      | JNumber x \<Rightarrow> if js_lt x (Fin 30) \<or> js_gt x (Fin 600) then Fin 100 else x
      | _ \<Rightarrow> Fin 100)"

text \<open>A number as \<open>JSON.stringify\<close> writes it: NaN and the infinities become \<open>null\<close>.\<close>

definition json_number :: "jsnum \<Rightarrow> rat option" where
  "json_number x = (case x of Fin q \<Rightarrow> Some q | _ \<Rightarrow> None)"

text \<open>The stores that both ways of creating a round reset for the id of the new round.\<close>

definition resetRoundStores :: "string \<Rightarrow> node \<Rightarrow> node" where
  "resetRoundStores rid s =
     s\<lparr>resultProposed := False, keysSharingComplete := False,
       hasVotedInRound := (hasVotedInRound s)(rid \<mapsto> False),
       votes := (votes s)(rid \<mapsto> []),
       encryptedVotes := (encryptedVotes s)(rid \<mapsto> []),
       voteKeys := (voteKeys s)(rid \<mapsto> [])\<rparr>"

text \<open>Arming the two timers of the current round and storing their handles in it.\<close>

definition armRoundTimers :: "jsnum \<Rightarrow> jsnum \<Rightarrow> node \<Rightarrow> node" where
  "armRoundTimers consensusDelay finishDelay s =
     (let (h1, s1) = setTimeout EnterConsensusPhase consensusDelay s;
          s2 = s1\<lparr>currentRound := map_option (\<lambda>r. r\<lparr>consensusTimeout := Some h1\<rparr>) (currentRound s1)\<rparr>;
          (h2, s3) = setTimeout FinishRound finishDelay s2
      in s3\<lparr>currentRound := map_option (\<lambda>r. r\<lparr>finishTimeout := Some h2\<rparr>) (currentRound s3)\<rparr>)"

text \<open>
  \<open>startVotingRound\<close> returns the id of the new round, or nothing when a round is
  still active. The two readings of the clock are one value.
\<close>

definition startVotingRound ::
  "string \<Rightarrow> string list option \<Rightarrow> js_value \<Rightarrow> int \<Rightarrow> node \<Rightarrow> string option \<times> node" where
  "startVotingRound topic' allowedChoices' votingTimeSeconds' now s =
     (if (case currentRound s of None \<Rightarrow> False | Some r \<Rightarrow> phase r \<noteq> FINISHED)
      then (None, s)
      else
        let v = validVotingTime votingTimeSeconds';
            rid = ''round_'' @ decimal now @ ''_'' @ nodeId s;
            round = \<lparr>roundId = rid, topic = topic', allowedChoices = allowedChoices',
                     startTime = now, duration = js_scale v 1000, votingTimeSeconds = v,
                     phase = VOTING, roundResults = None, consensusAchieved = False,
                     consensusNodes = [], consensusTimeout = None, finishTimeout = None\<rparr>;
            s1 = resetRoundStores rid (s\<lparr>currentRound := Some round\<rparr>);
            s2 = broadcast (ROUND_START rid topic' allowedChoices' (json_number v) now (nodeId s1)) s1;
            consensusDelay = Math_round (js_scale (js_scale v (8 / 10)) 1000)
        in (Some rid, armRoundTimers consensusDelay (duration round) s2))"

definition handleRoundStart ::
  "string \<Rightarrow> string \<Rightarrow> string list option \<Rightarrow> rat option \<Rightarrow> int \<Rightarrow> string \<Rightarrow> int \<Rightarrow> node \<Rightarrow> node" where
  "handleRoundStart rid topic' allowedChoices' votingTimeSeconds' startTime' sender now s =
     (if (case currentRound s of None \<Rightarrow> True | Some r \<Rightarrow> startTime r < startTime')
      then
        let v = (case votingTimeSeconds' of None \<Rightarrow> 100 | Some x \<Rightarrow> if x = 0 then 100 else x);
            round = \<lparr>roundId = rid, topic = topic', allowedChoices = allowedChoices',
                     startTime = startTime', duration = Fin (v * 1000), votingTimeSeconds = Fin v,
                     phase = VOTING, roundResults = None, consensusAchieved = False,
                     consensusNodes = [], consensusTimeout = None, finishTimeout = None\<rparr>;
            s1 = resetRoundStores rid (s\<lparr>currentRound := Some round\<rparr>);
            elapsed = of_int (now - startTime');
            consensusDelay = max 100 (round_half_up (v * (8 / 10) * 1000) - elapsed);
            finishDelay = max 100 (v * 1000 - elapsed)
        in armRoundTimers (Fin consensusDelay) (Fin finishDelay) s1
      else s)"

section \<open>Mesh messages\<close>

definition getKnownPeersList :: "node \<Rightarrow> peer_info list" where
  "getKnownPeersList s =
     map (\<lambda>(h, p). \<lparr>pi_nodeId = None, pi_host = Some h, pi_port = Some p\<rparr>) (knownPeers s)
     @ concat (map (\<lambda>(peerId, ws).
          if peerId \<in> set (activePeers s)
          then (case map_of (peerAddresses s) peerId of
                  None \<Rightarrow> []
                | Some (h, p) \<Rightarrow> [\<lparr>pi_nodeId = Some peerId, pi_host = Some h, pi_port = Some p\<rparr>])
          else []) (peers s))"

definition sendPeerList :: "websocket \<Rightarrow> node \<Rightarrow> node" where
  "sendPeerList ws s =
     s\<lparr>outbox := outbox s @ [Sent (ws_id ws) (PEER_EXCHANGE_RESPONSE (nodeId s) (getKnownPeersList s))]\<rparr>"

text \<open>
  The loop of \<open>processPeerExchange\<close>, with the count of connection attempts it has
  scheduled so far; it stops after the third.
\<close>

fun processPeerLoop :: "peer_info list \<Rightarrow> nat \<Rightarrow> node \<Rightarrow> node" where
  "processPeerLoop [] newConnectionAttempts s = s"
| "processPeerLoop (peerInfo # rest) newConnectionAttempts s =
     (if pi_nodeId peerInfo = Some (nodeId s) then processPeerLoop rest newConnectionAttempts s
      else if (case pi_nodeId peerInfo of None \<Rightarrow> False | Some n \<Rightarrow> n \<noteq> [] \<and> map_has (peers s) n)
      then processPeerLoop rest newConnectionAttempts s
      else
        (case pi_host peerInfo of
           None \<Rightarrow> processPeerLoop rest newConnectionAttempts s
         | Some h \<Rightarrow>
             (case pi_port peerInfo of
                None \<Rightarrow> processPeerLoop rest newConnectionAttempts s
              | Some p \<Rightarrow>
                  if h = [] \<or> p = 0 then processPeerLoop rest newConnectionAttempts s
                  else if (h, p) \<in> set (knownPeers s)
                  then processPeerLoop rest newConnectionAttempts s
                  else if h = ''localhost'' \<and> p = port s
                  then processPeerLoop rest newConnectionAttempts s
                  else
                    let s1 = s\<lparr>knownPeers := knownPeers s @ [(h, p)]\<rparr>;
                        s2 = snd (setTimeout (ConnectToPeer h p)
                                    (Fin (of_nat newConnectionAttempts * 2000)) s1)
                    in if newConnectionAttempts + 1 \<ge> 3 then s2
                       else processPeerLoop rest (newConnectionAttempts + 1) s2)))"

definition processPeerExchange :: "peer_info list \<Rightarrow> node \<Rightarrow> node" where
  "processPeerExchange receivedPeers s = processPeerLoop receivedPeers 0 s"

definition remoteHost :: "websocket \<Rightarrow> string" where
  "remoteHost ws =
     (let a = (case remoteAddress ws of None \<Rightarrow> ''localhost'' | Some x \<Rightarrow> x)
      in if a = ''::1'' \<or> a = ''127.0.0.1'' then ''localhost'' else a)"

definition storeAddress :: "string \<Rightarrow> nat option \<Rightarrow> websocket \<Rightarrow> node \<Rightarrow> node" where
  "storeAddress sender p ws s =
     (case p of
        None \<Rightarrow> s
      | Some q \<Rightarrow>
          if q = 0 then s
          else s\<lparr>peerAddresses := AList.update sender (remoteHost ws, q) (peerAddresses s)\<rparr>)"

definition originalHandleMessage ::
  "runtime \<Rightarrow> websocket \<Rightarrow> message \<Rightarrow> int \<Rightarrow> node \<Rightarrow> (js_error \<times> node) + node" where
  "originalHandleMessage lib ws m now s =
     (case m of
        HANDSHAKE sender p known \<Rightarrow>
          let s1 = s\<lparr>peers := AList.update sender ws (peers s),
                     activePeers := set_add sender (activePeers s)\<rparr>;
              s2 = storeAddress sender p ws s1
          in Inr (s2\<lparr>outbox := outbox s2 @
                    [Sent (ws_id ws) (HANDSHAKE_ACK (nodeId s2) (Some (port s2)) (getKnownPeersList s2)),
                     Sent (ws_id ws) (PEER_EXCHANGE_REQUEST (nodeId s2))]\<rparr>)
      | HANDSHAKE_ACK sender p known \<Rightarrow>
          let s1 = (if map_has (peers s) sender then s
                    else s\<lparr>peers := AList.update sender ws (peers s)\<rparr>);
              s2 = s1\<lparr>activePeers := set_add sender (activePeers s1)\<rparr>;
              s3 = storeAddress sender p ws s2
          in Inr (if known \<noteq> [] then processPeerExchange known s3 else s3)
      | PEER_EXCHANGE_REQUEST sender \<Rightarrow> Inr (sendPeerList ws s)
      | PEER_EXCHANGE_RESPONSE sender received \<Rightarrow>
          Inr (if received \<noteq> [] then processPeerExchange received s else s)
      | HEARTBEAT sender \<Rightarrow> Inr (s\<lparr>activePeers := set_add sender (activePeers s)\<rparr>)
      | ENCRYPTED_VOTE em \<Rightarrow>
          let s1 = handleEncryptedVote em s
          in Inr (notifyGUIClients
                    (VOTE_RECEIVED (ev_roundId em) (ev_anonymousVoteId em)
                       (length (round_map (encryptedVotes s1) (ev_roundId em))))
                    now s1)
      | BATCH_VOTE_KEYS rid keys sender \<Rightarrow> handleBatchVoteKeys lib rid keys sender s
      | VOTE_KEY rid anonymousVoteId key sender \<Rightarrow> handleVoteKey lib rid anonymousVoteId key sender s
      | RESULT_PROPOSAL rid res voteCount sender \<Rightarrow> handleResultProposal lib rid res sender s
      | ROUND_START rid topic' allowed v startTime' sender \<Rightarrow>
          let s1 = handleRoundStart rid topic' allowed v startTime' sender now s
          in Inr (notifyGUIClients
                    (ROUND_START_EVENT rid topic' allowed
                       (case v of None \<Rightarrow> 100 | Some x \<Rightarrow> if x = 0 then 100 else x) startTime' sender)
                    now s1)
      | DUPLICATE_NODE_REJECTION existing \<Rightarrow> Inr s
      | OTHER t sender \<Rightarrow> Inr s)"

fun isHandshake :: "message \<Rightarrow> bool" where
  "isHandshake (HANDSHAKE _ _ _) = True"
| "isHandshake (HANDSHAKE_ACK _ _ _) = True"
| "isHandshake _ = False"

definition handleMessage ::
  "runtime \<Rightarrow> websocket \<Rightarrow> message \<Rightarrow> int \<Rightarrow> node \<Rightarrow> (js_error \<times> node) + node" where
  "handleMessage lib ws m now s =
     (if isHandshake m \<and> msg_from m = Some (nodeId s)
      then Inr (s\<lparr>outbox := outbox s @
                  [Sent (ws_id ws) (DUPLICATE_NODE_REJECTION (nodeId s)), Closed (ws_id ws)]\<rparr>)
      else
        let s1 = (case msg_from m of
                    None \<Rightarrow> s
                  | Some sender \<Rightarrow>
                      if sender \<noteq> [] \<and> sender \<noteq> nodeId s
                      then s\<lparr>nodeRegistry := AList.update sender (now, ws) (nodeRegistry s)\<rparr>
                      else s)
        in case m of
             DUPLICATE_NODE_REJECTION existing \<Rightarrow>
               Inr (snd (setTimeout ProcessExit (Fin 3000) (s1\<lparr>duplicateNodeDetected := True\<rparr>)))
           | _ \<Rightarrow> originalHandleMessage lib ws m now s1)"

section \<open>Events\<close>

text \<open>
  A pending timer fires: it leaves the list of pending timers and its action runs.
  The random values are those the action draws, the integer is the clock.
\<close>

definition fireTimer ::
  "runtime \<Rightarrow> nat \<Rightarrow> (nat \<Rightarrow> rat) \<Rightarrow> rat \<Rightarrow> int \<Rightarrow> node \<Rightarrow> (js_error \<times> node) + node" where
  "fireTimer lib h rnd delayDraw now s =
     (case map_of (timers s) h of
        None \<Rightarrow> Inr s
      | Some (d, action) \<Rightarrow>
          let s1 = s\<lparr>timers := filter (\<lambda>t. fst t \<noteq> h) (timers s)\<rparr>
          in case action of
               EnterConsensusPhase \<Rightarrow> enterConsensusPhase rnd delayDraw now s1
             | FinishRound \<Rightarrow> finishRound lib now s1
             | CheckIfReadyToPropose \<Rightarrow> checkIfReadyToPropose lib s1
             | BroadcastBatchVoteKeys allKeys \<Rightarrow> broadcastBatchVoteKeys allKeys s1
             | ConnectToPeer host p \<Rightarrow> Inr s1
             | ProcessExit \<Rightarrow> Inr s1)"

text \<open>The heartbeat interval fires.\<close>

definition heartbeat :: "node \<Rightarrow> node" where
  "heartbeat s = broadcast (HEARTBEAT (nodeId s)) s"

text \<open>
  A socket closes. The handler of an inbound link first looks for an observer with
  that socket; both handlers then drop the first peer with that socket, and the handler
  of an outbound link also drops its registry entry.
\<close>

definition connectionClosed :: "bool \<Rightarrow> websocket \<Rightarrow> node \<Rightarrow> node" where
  "connectionClosed outbound ws s =
     (case (if outbound then None
            else find (\<lambda>(clientId, clientWs). ws_id clientWs = ws_id ws) (guiClients s)) of
        Some (clientId, clientWs) \<Rightarrow> s\<lparr>guiClients := AList.delete clientId (guiClients s)\<rparr>
      | None \<Rightarrow>
          (case find (\<lambda>(peerId, peerWs). ws_id peerWs = ws_id ws) (peers s) of
             None \<Rightarrow> s
           | Some (peerId, peerWs) \<Rightarrow>
               s\<lparr>peers := AList.delete peerId (peers s),
                 activePeers := removeAll peerId (activePeers s),
                 nodeRegistry := (if outbound then AList.delete peerId (nodeRegistry s)
                                  else nodeRegistry s)\<rparr>))"

text \<open>
  What can happen to a node: a frame arrives on a peer link, the operator votes or
  starts a round (from the command line or through an observer, which call the same
  two methods), a timer fires, the heartbeat interval fires, a socket closes. A timer
  may fire at any time, whatever its delay. Discovery, the set-up of connections
  and the status reports to observers do not touch the rounds and are left out.
\<close>

datatype event =
    Message websocket message int
  | CastVote string string string string int
  | StartVotingRound string "string list option" js_value int
  | TimerFires nat "nat \<Rightarrow> rat" rat int
  | Heartbeat
  | ConnectionClosed bool websocket

text \<open>
  One event. The listener of a socket runs \<open>handleMessage\<close> inside \<open>try\<close> and logs
  what it catches, so the node goes on from the state the handler left; an exception
  in a timer is not caught.
\<close>

definition step :: "runtime \<Rightarrow> event \<Rightarrow> node \<Rightarrow> (js_error \<times> node) + node" where
  "step lib e s =
     (case e of
        Message ws m now \<Rightarrow> Inr (state_of (handleMessage lib ws m now s))
      | CastVote choice key iv anonymousVoteId now \<Rightarrow>
          Inr (snd (castVote lib choice key iv anonymousVoteId now s))
      | StartVotingRound topic' allowed v now \<Rightarrow> Inr (snd (startVotingRound topic' allowed v now s))
      | TimerFires h rnd delayDraw now \<Rightarrow> fireTimer lib h rnd delayDraw now s
      | Heartbeat \<Rightarrow> Inr (heartbeat s)
      | ConnectionClosed outbound ws \<Rightarrow> Inr (connectionClosed outbound ws s))"

fun run :: "runtime \<Rightarrow> event list \<Rightarrow> node \<Rightarrow> (js_error \<times> node) + node" where
  "run lib [] s = Inr s"
| "run lib (e # es) s = (case step lib e s of Inl x \<Rightarrow> Inl x | Inr s' \<Rightarrow> run lib es s')"

section \<open>Notions used in the statements\<close>

text \<open>The choices of a map of decrypted votes, in lower case, in the order of the map.\<close>

definition lowered :: "(string \<times> vote) list \<Rightarrow> string list" where
  "lowered M = map (\<lambda>v. toLowerCase (v_choice v)) (map snd M)"

text \<open>
  The order of a tally by count descending and then by choice ascending, the choices
  compared by character code.
\<close>

definition tally_before :: "result_entry \<Rightarrow> result_entry \<Rightarrow> bool" where
  "tally_before a b =
     (r_count b < r_count a \<or> (r_count a = r_count b \<and> r_choice a < r_choice b))"

text \<open>
  The sorting key that the comparison function of the tally realises when its
  \<open>localeCompare\<close> compares by character code.
\<close>

definition tkey :: "string \<times> nat \<Rightarrow> int \<times> string" where
  "tkey a = (- int (snd a), fst a)"

text \<open>The pairs of anonymous id and key of a key map, as \<open>shareAllKeys\<close> collects them.\<close>

definition key_pairs :: "(string \<times> key_data) list \<Rightarrow> (string \<times> string) list" where
  "key_pairs roundKeys = map (\<lambda>(anonymousVoteId, keyData). (anonymousVoteId, kd_key keyData)) roundKeys"

text \<open>An entry of the key map that \<open>castVote\<close> wrote: tagged with our id, with no provider.\<close>

definition own_entry :: "node \<Rightarrow> string \<times> key_data \<Rightarrow> bool" where
  "own_entry s e = (kd_submittedBy (snd e) = Some (nodeId s) \<and> kd_keyProvider (snd e) = None)"

text \<open>The id and the phase of the current round, if there is one.\<close>

definition cur_id :: "node \<Rightarrow> string option" where
  "cur_id s = map_option roundId (currentRound s)"

definition cur_phase :: "node \<Rightarrow> phase option" where
  "cur_phase s = map_option phase (currentRound s)"


text \<open>The \<open>ENCRYPTED_VOTE\<close> frames among what the node has sent.\<close>

fun is_enc_frame :: "wire_output \<Rightarrow> bool" where
  "is_enc_frame (Sent w (ENCRYPTED_VOTE em)) = True"
| "is_enc_frame (GuiMirror c (ENCRYPTED_VOTE em)) = True"
| "is_enc_frame _ = False"

definition enc_frames :: "node \<Rightarrow> wire_output list" where
  "enc_frames s = filter is_enc_frame (outbox s)"

text \<open>
  The event creates a round: the operator starts one while none is active, or a
  \<open>ROUND_START\<close> arrives that \<open>handleRoundStart\<close> accepts. \<open>new_round_id\<close> is the id of
  that round.
\<close>

fun creates_round :: "event \<Rightarrow> node \<Rightarrow> bool" where
  "creates_round (StartVotingRound tp ac v now) s =
     (case currentRound s of None \<Rightarrow> True | Some r \<Rightarrow> phase r = FINISHED)"
| "creates_round (Message ws (ROUND_START rid tp ac v st sender) now) s =
     (case currentRound s of None \<Rightarrow> True | Some r \<Rightarrow> startTime r < st)"
| "creates_round _ s = False"

fun new_round_id :: "event \<Rightarrow> node \<Rightarrow> string" where
  "new_round_id (StartVotingRound tp ac v now) s = ''round_'' @ decimal now @ ''_'' @ nodeId s"
| "new_round_id (Message ws (ROUND_START rid tp ac v st sender) now) s = rid"
| "new_round_id _ s = []"

text \<open>
  The event is a call of \<open>castVote\<close> that casts a vote; \<open>cast_pair\<close> is then the pair
  of anonymous id and key that the call generated.
\<close>

fun accepted_vote :: "runtime \<Rightarrow> event \<Rightarrow> node \<Rightarrow> bool" where
  "accepted_vote lib (CastVote choice key iv anonymousVoteId now) s =
     (fst (castVote lib choice key iv anonymousVoteId now s) = VoteCast)"
| "accepted_vote lib _ s = False"

fun cast_pair :: "runtime \<Rightarrow> event \<Rightarrow> node \<Rightarrow> (string \<times> string) option" where
  "cast_pair lib (CastVote choice key iv anonymousVoteId now) s =
     (if fst (castVote lib choice key iv anonymousVoteId now s) = VoteCast
      then Some (anonymousVoteId, key) else None)"
| "cast_pair lib _ s = None"

text \<open>No event of the run creates a round: the run stays within the round it starts in.\<close>

fun same_round_run :: "runtime \<Rightarrow> event list \<Rightarrow> node \<Rightarrow> bool" where
  "same_round_run lib [] s = True"
| "same_round_run lib (e # es) s =
     (\<not> creates_round e s \<and> same_round_run lib es (state_of (step lib e s)))"


text \<open>
  The pairs of anonymous id and key that \<open>castVote\<close> has generated for the round that
  is current at the end of the run, in the order of the key map; \<open>acc\<close> holds those
  generated for the current round before the run.
\<close>

fun own_pairs ::
  "runtime \<Rightarrow> event list \<Rightarrow> node \<Rightarrow> (string \<times> string) list \<Rightarrow> (string \<times> string) list" where
  "own_pairs lib [] s acc = acc"
| "own_pairs lib (e # es) s acc =
     own_pairs lib es (state_of (step lib e s))
       (if creates_round e s then []
        else case cast_pair lib e s of None \<Rightarrow> acc | Some (a, k) \<Rightarrow> AList.update a k acc)"

text \<open>
  During VOTING the key map of the current round holds exactly the pairs \<open>acc\<close>, and
  every entry is one that \<open>castVote\<close> wrote.
\<close>

definition own_keys :: "node \<Rightarrow> (string \<times> string) list \<Rightarrow> bool" where
  "own_keys s acc =
     (cur_phase s = Some VOTING \<longrightarrow>
        (\<exists>rid. cur_id s = Some rid \<and> key_pairs (round_map (voteKeys s) rid) = acc
           \<and> (\<forall>e \<in> set (round_map (voteKeys s) rid). own_entry s e)))"

text \<open>
  Four relations between the state before and after a piece of work, used to carry
  facts through the handlers. \<open>untouched\<close>: the identity of the node, the stores of
  all rounds, the id and phase of the current round and the \<open>ENCRYPTED_VOTE\<close>
  frames sent are the same. \<open>consensus_work\<close>: as before, but the decrypted votes and
  the keys of the current round may differ. \<open>quiet_step\<close>: what every event that
  neither creates a round nor casts a vote guarantees. \<open>fresh_round\<close>: what the
  creation of the round \<open>rid\<close> guarantees. \<open>vote_cast\<close>: what a cast vote guarantees.
\<close>

definition untouched :: "node \<Rightarrow> node \<Rightarrow> bool" where
  "untouched s s' =
     (nodeId s' = nodeId s \<and> votes s' = votes s \<and> encryptedVotes s' = encryptedVotes s
      \<and> voteKeys s' = voteKeys s \<and> hasVotedInRound s' = hasVotedInRound s
      \<and> cur_id s' = cur_id s \<and> cur_phase s' = cur_phase s
      \<and> enc_frames s' = enc_frames s)"

definition consensus_work :: "node \<Rightarrow> node \<Rightarrow> bool" where
  "consensus_work s s' =
     (nodeId s' = nodeId s \<and> encryptedVotes s' = encryptedVotes s
      \<and> hasVotedInRound s' = hasVotedInRound s
      \<and> cur_id s' = cur_id s \<and> cur_phase s' = cur_phase s
      \<and> enc_frames s' = enc_frames s
      \<and> (\<forall>rid. cur_id s \<noteq> Some rid \<longrightarrow>
             votes s' rid = votes s rid \<and> voteKeys s' rid = voteKeys s rid))"

definition quiet_step :: "node \<Rightarrow> node \<Rightarrow> bool" where
  "quiet_step s s' =
     (nodeId s' = nodeId s \<and> hasVotedInRound s' = hasVotedInRound s \<and> enc_frames s' = enc_frames s
      \<and> cur_id s' = cur_id s
      \<and> (cur_phase s' = Some VOTING \<longrightarrow>
             cur_phase s = Some VOTING \<and> (\<forall>rid. cur_id s = Some rid \<longrightarrow> voteKeys s' rid = voteKeys s rid))
      \<and> (\<forall>rid. cur_id s \<noteq> Some rid \<or> cur_phase s = Some FINISHED \<longrightarrow>
             votes s' rid = votes s rid \<and> encryptedVotes s' rid = encryptedVotes s rid
             \<and> voteKeys s' rid = voteKeys s rid)
      \<and> (cur_phase s = Some FINISHED \<longrightarrow> cur_phase s' = Some FINISHED))"

definition fresh_round :: "string \<Rightarrow> node \<Rightarrow> node \<Rightarrow> bool" where
  "fresh_round rid s s' =
     (nodeId s' = nodeId s \<and> cur_id s' = Some rid \<and> cur_phase s' = Some VOTING
      \<and> votes s' = (votes s)(rid \<mapsto> []) \<and> encryptedVotes s' = (encryptedVotes s)(rid \<mapsto> [])
      \<and> voteKeys s' = (voteKeys s)(rid \<mapsto> []) \<and> hasVotedInRound s' = (hasVotedInRound s)(rid \<mapsto> False)
      \<and> enc_frames s' = enc_frames s)"

definition vote_cast :: "string \<Rightarrow> string \<Rightarrow> node \<Rightarrow> node \<Rightarrow> bool" where
  "vote_cast a key s s' =
     (\<exists>rid. cur_id s = Some rid \<and> cur_phase s = Some VOTING \<and> hasVotedInRound s rid \<noteq> Some True
        \<and> nodeId s' = nodeId s \<and> currentRound s' = currentRound s
        \<and> hasVotedInRound s' = (hasVotedInRound s)(rid \<mapsto> True)
        \<and> votes s' = votes s
        \<and> voteKeys s' = (voteKeys s)(rid \<mapsto>
             AList.update a \<lparr>kd_key = key, kd_submittedBy = Some (nodeId s), kd_keyProvider = None\<rparr>
               (round_map (voteKeys s) rid))
        \<and> (\<forall>rid'. rid' \<noteq> rid \<longrightarrow> encryptedVotes s' rid' = encryptedVotes s rid'))"

section \<open>Example states\<close>

definition ballot :: "string \<Rightarrow> string \<Rightarrow> string \<times> vote" where
  "ballot anonymousVoteId c =
     (anonymousVoteId, \<lparr>v_choice = c, v_anonymousVoteId = anonymousVoteId,
                        v_timestamp = 1500, v_roundId = ''round_1000_alice''\<rparr>)"

definition example_round :: voting_round where
  "example_round =
     \<lparr>roundId = ''round_1000_alice'', topic = ''Deploy?'', allowedChoices = Some [''yes'', ''no''],
      startTime = 1000, duration = Fin 40000, votingTimeSeconds = Fin 40, phase = VOTING,
      roundResults = None, consensusAchieved = False, consensusNodes = [],
      consensusTimeout = Some 0, finishTimeout = Some 1\<rparr>"

text \<open>Node alice in the example round, with the timers of the round pending.\<close>

definition example_node :: node where
  "example_node =
     (initial_node ''alice'' 3001 [])
       \<lparr>currentRound := Some example_round,
        votes := [''round_1000_alice'' \<mapsto> []],
        encryptedVotes := [''round_1000_alice'' \<mapsto> []],
        voteKeys := [''round_1000_alice'' \<mapsto> []],
        hasVotedInRound := [''round_1000_alice'' \<mapsto> False],
        timers := [(0, Fin 32000, EnterConsensusPhase), (1, Fin 40000, FinishRound)],
        nextTimer := 2\<rparr>"

text \<open>Two nodes that hold the same three decrypted ballots, decrypted in different orders.\<close>

definition tally_node_1 :: node where
  "tally_node_1 =
     example_node\<lparr>votes := [''round_1000_alice'' \<mapsto>
        [ballot ''a1'' ''Yes'', ballot ''b2'' ''no'', ballot ''c3'' ''yes'']]\<rparr>"

definition tally_node_2 :: node where
  "tally_node_2 =
     example_node\<lparr>votes := [''round_1000_alice'' \<mapsto>
        [ballot ''b2'' ''no'', ballot ''c3'' ''yes'', ballot ''a1'' ''Yes'']]\<rparr>"

text \<open>
  A runtime for the examples. Its cipher, hash and JSON are the simplest functions
  of their types; what is shown on the examples does not depend on them. Its
  comparison of strings gives no weight to control characters, as the collation
  of the JavaScript runtime does: \<open>'yes'.localeCompare('yes\u0001')\<close> is 0 there.
  What is left of the two strings is compared by character code.
\<close>

definition weighted :: "string \<Rightarrow> string" where
  "weighted a = filter (\<lambda>c. (32::nat) \<le> of_char c) a"

definition example_lib :: runtime where
  "example_lib =
     \<lparr>cipher = (\<lambda>key iv plaintext. plaintext),
      decipher = (\<lambda>key iv ciphertext. Some ciphertext),
      sha256_hex = (\<lambda>m. m),
      JSON_stringify = v_choice,
      JSON_parse = (\<lambda>t. Some \<lparr>v_choice = t, v_anonymousVoteId = [], v_timestamp = 0, v_roundId = []\<rparr>),
      localeCompare = (\<lambda>a b. if weighted a < weighted b then - 1
                             else if weighted b < weighted a then 1 else 0)\<rparr>"

text \<open>
  Two nodes in the consensus phase of a round without a list of allowed choices.
  They hold the same two decrypted ballots, one for \<open>yes\<close> and one for \<open>yes\<close> followed
  by the control character U+0001, and have decrypted them in different orders.
\<close>

definition tie_node_1 :: node where
  "tie_node_1 =
     example_node
       \<lparr>currentRound := Some (example_round\<lparr>allowedChoices := None, phase := CONSENSUS\<rparr>),
        votes := [''round_1000_alice'' \<mapsto>
          [ballot ''a1'' ''yes'', ballot ''b2'' (''yes'' @ [CHR 0x01])]]\<rparr>"

definition tie_node_2 :: node where
  "tie_node_2 =
     example_node
       \<lparr>currentRound := Some (example_round\<lparr>allowedChoices := None, phase := CONSENSUS\<rparr>),
        votes := [''round_1000_alice'' \<mapsto>
          [ballot ''b2'' (''yes'' @ [CHR 0x01]), ballot ''a1'' ''yes'']]\<rparr>"

definition example_ws :: websocket where
  "example_ws = \<lparr>ws_id = 7, remoteAddress = Some ''10.0.0.2'', readyStateOpen = True, sendThrows = False\<rparr>"

text \<open>
  Alice in the consensus phase of the example round, with bob as her only active
  peer and both of them already in her consensus set.
\<close>

definition consensus_node :: node where
  "consensus_node =
     tally_node_1
       \<lparr>currentRound := Some (example_round\<lparr>phase := CONSENSUS, consensusNodes := [''alice'', ''bob'']\<rparr>),
        peers := [(''bob'', example_ws)],
        activePeers := [''bob''],
        timers := [(1, Fin 40000, FinishRound)]\<rparr>"

text \<open>
  Alice, in her own round started at 1000, accepts at time 2000 the round that bob
  started at 2000.
\<close>

definition two_rounds_node :: node where
  "two_rounds_node =
     handleRoundStart ''round_2000_bob'' ''Lunch?'' None (Some 40) 2000 ''bob'' 2000 example_node"



text \<open>
  The first events of a fresh node: alice starts a round, votes, and receives a key
  batch from bob while she is still in VOTING.
\<close>

definition first_events :: "event list" where
  "first_events =
     [StartVotingRound ''Deploy?'' (Some [''yes'', ''no'']) (JNumber (Fin 40)) 1000,
      CastVote ''Yes'' ''k1'' ''iv1'' ''a1'' 1500,
      Message example_ws (BATCH_VOTE_KEYS ''round_1000_alice'' [(''b7'', ''k7'')] ''bob'') 2000]"

section \<open>Properties of the tally\<close>

lemma compareLoop_eq: "length r1 = length r2 \<Longrightarrow> compareLoop r1 r2 = (r1 = r2)"
  by (induction r1 r2 rule: list_induct2) auto

lemma compareResults_eq: "compareResults r1 r2 = (r1 = r2)"
  by (auto simp: compareResults_def compareLoop_eq)

text \<open>
  \<open>compareResults\<close> holds of two tallies exactly when they have the same length and
  agree at every position on both fields.
\<close>

lemma compareResults_elementwise:
  "compareResults r1 r2 =
     (length r1 = length r2 \<and>
      (\<forall>i<length r1. r_choice (r1 ! i) = r_choice (r2 ! i) \<and> r_count (r1 ! i) = r_count (r2 ! i)))"
  unfolding compareResults_eq by (auto simp: list_eq_iff_nth_eq)

lemma distinct_tally_step: "distinct (map fst t) \<Longrightarrow> distinct (map fst (tally_step c t))"
  by (simp add: tally_step_def distinct_update)

lemma distinct_fold_tally:
  "distinct (map fst t) \<Longrightarrow> distinct (map fst (fold tally_step L t))"
  by (induction L arbitrary: t) (simp_all add: distinct_tally_step)

lemma map_of_tally_step:
  "map_of (tally_step c t) d =
     (if d = c then Some ((case map_of t c of None \<Rightarrow> 0 | Some n \<Rightarrow> n) + 1) else map_of t d)"
  by (simp add: tally_step_def update_conv')

lemma map_of_fold_tally:
  "map_of (fold tally_step L t) c =
     (if c \<in> set L then Some ((case map_of t c of None \<Rightarrow> 0 | Some n \<Rightarrow> n) + count_list L c)
      else map_of t c)"
proof (induction L arbitrary: t)
  case Nil
  show ?case by simp
next
  case (Cons a L)
  show ?case by (simp add: Cons.IH map_of_tally_step)
qed

lemma set_fold_tally: "set (fold tally_step L []) = (\<lambda>c. (c, count_list L c)) ` set L"
proof -
  have d: "distinct (map fst (fold tally_step L []))"
    by (rule distinct_fold_tally) simp
  have "(c, n) \<in> set (fold tally_step L []) \<longleftrightarrow> (c \<in> set L \<and> n = count_list L c)" for c n
    using map_of_eq_Some_iff [OF d, of c n]
    by (auto simp: map_of_fold_tally split: if_splits)
  then show ?thesis by auto
qed

lemma distinct_fold_tally_Nil: "distinct (fold tally_step L [])"
  using distinct_fold_tally [of "[]" L] by (simp add: distinct_map)

lemma mset_fold_tally:
  assumes "mset L = mset L'"
  shows "mset (fold tally_step L []) = mset (fold tally_step L' [])"
proof -
  have s: "set L = set L'"
    using assms by (rule mset_eq_setD)
  have c: "count_list L x = count_list L' x" for x
    using assms by (metis count_mset)
  have "set (fold tally_step L []) = set (fold tally_step L' [])"
    by (simp add: set_fold_tally s c)
  then show ?thesis
    using distinct_fold_tally_Nil [of L] distinct_fold_tally_Nil [of L']
    by (simp add: set_eq_iff_mset_eq_distinct)
qed

lemma set_js_insert: "set (js_insert cmp x ys) = insert x (set ys)"
  by (induction ys) auto

lemma set_js_sort: "set (js_sort cmp xs) = set xs"
  unfolding js_sort_def by (induction xs) (simp_all add: set_js_insert)

text \<open>
  Whatever the comparison of the runtime is, the tally has one entry for each
  choice, in lower case, with the number of its occurrences.
\<close>

lemma set_tally_results:
  "set (tally_results lc M) =
     (\<lambda>c. \<lparr>r_choice = c, r_count = count_list (lowered M) c\<rparr>) ` set (lowered M)"
proof -
  have "set (tally_results lc M) =
          (\<lambda>(c, n). \<lparr>r_choice = c, r_count = n\<rparr>) ` set (fold tally_step (lowered M) [])"
    by (simp add: tally_results_def set_js_sort lowered_def)
  also have "\<dots> = (\<lambda>c. \<lparr>r_choice = c, r_count = count_list (lowered M) c\<rparr>) ` set (lowered M)"
    unfolding set_fold_tally image_image by simp
  finally show ?thesis .
qed

text \<open>
  Two entries of equal count keep the order of the map when the comparison of the
  runtime returns 0 for their choices.
\<close>

lemma tied_choices_keep_map_order:
  assumes "lc (toLowerCase (v_choice v)) (toLowerCase (v_choice w)) = 0"
    and "toLowerCase (v_choice v) \<noteq> toLowerCase (v_choice w)"
  shows "tally_results lc [(i, v), (j, w)] =
           [\<lparr>r_choice = toLowerCase (v_choice v), r_count = 1\<rparr>,
            \<lparr>r_choice = toLowerCase (v_choice w), r_count = 1\<rparr>]"
  using assms
  by (simp add: tally_results_def tally_step_def js_sort_def tally_compare_def)

text \<open>
  With a comparison that orders the strings by character code, and so returns 0 only
  for equal strings, the tally is ordered by count descending and then by choice
  ascending, and it is the same for any two maps that hold the same multiset of
  choices.
\<close>

lemma tally_compare_le:
  assumes "\<And>a b. (lc a b \<le> 0) = (a \<le> b)"
  shows "(tally_compare lc a b \<le> 0) = (tkey a \<le> tkey b)"
  by (cases a; cases b) (auto simp: tally_compare_def tkey_def less_eq_prod_def assms)

lemma js_sort_sort_key:
  assumes "\<And>a b. (lc a b \<le> 0) = (a \<le> b)"
  shows "js_sort (tally_compare lc) xs = sort_key tkey xs"
proof -
  have i: "js_insert (tally_compare lc) x ys = insort_key tkey x ys" for x ys
    by (induction ys) (simp_all add: tally_compare_le [OF assms])
  show ?thesis
    unfolding js_sort_def sort_key_def by (induction xs) (simp_all add: i)
qed

lemma inj_on_tkey: "inj_on tkey A"
  by (auto simp: inj_on_def tkey_def prod_eq_iff)

lemma sorted_wrt_distinct:
  "sorted_wrt P xs \<Longrightarrow> distinct xs \<Longrightarrow> sorted_wrt (\<lambda>a b. P a b \<and> a \<noteq> b) xs"
  by (induction xs) auto

lemma tally_results_by_character_code:
  assumes "\<And>a b. (lc a b \<le> 0) = (a \<le> b)"
  shows "sorted_wrt tally_before (tally_results lc M)"
    and "mset (lowered M) = mset (lowered M') \<Longrightarrow> tally_results lc M = tally_results lc M'"
proof -
  let ?T = "js_sort (tally_compare lc) (fold tally_step (lowered M) [])"
  let ?e = "\<lambda>a. case a of (c, n) \<Rightarrow> \<lparr>r_choice = c, r_count = n\<rparr>"
  have d: "distinct ?T"
    using distinct_fold_tally_Nil [of "lowered M"] by (simp add: js_sort_sort_key [OF assms])
  have "sorted (map tkey ?T)"
    by (simp add: js_sort_sort_key [OF assms])
  then have "sorted_wrt (\<lambda>a b. tkey a \<le> tkey b) ?T"
    by (simp add: sorted_map)
  then have "sorted_wrt (\<lambda>a b. tkey a \<le> tkey b \<and> a \<noteq> b) ?T"
    using d by (rule sorted_wrt_distinct)
  then have "sorted_wrt (\<lambda>a b. tally_before (?e a) (?e b)) ?T"
    by (rule sorted_wrt_mono_rel [rotated])
       (auto simp: tkey_def tally_before_def less_eq_prod_def)
  then show "sorted_wrt tally_before (tally_results lc M)"
    by (simp add: tally_results_def sorted_wrt_map lowered_def)
  show "tally_results lc M = tally_results lc M'" if m: "mset (lowered M) = mset (lowered M')"
    unfolding tally_results_def js_sort_sort_key [OF assms]
    using sort_key_eq_sort_key [OF mset_fold_tally [OF m [unfolded lowered_def]] inj_on_tkey]
    by simp
qed

text \<open>
  Claim C1, at the input where the code departs from it. Two nodes hold the same
  two decrypted ballots, for \<open>yes\<close> and for \<open>yes\<close> followed by the control character
  U+0001; the first node decrypted the ballot for \<open>yes\<close> first, the second node the
  other one. The two maps hold the same multiset of choices. Both choices have
  count 1, and the comparison of the runtime returns 0 for them, as a collation
  does that gives no weight to control characters. So the sort leaves the two
  entries in the order of the map: the two nodes compute different lists, and
  \<open>compareResults\<close> tells them apart.
\<close>

theorem tally_order_follows_map_order:
  assumes "localeCompare lib ''yes'' (''yes'' @ [CHR 0x01]) = 0"
    and "localeCompare lib (''yes'' @ [CHR 0x01]) ''yes'' = 0"
  shows "mset (lowered (round_map (votes tie_node_1) ''round_1000_alice''))
           = mset (lowered (round_map (votes tie_node_2) ''round_1000_alice''))
       \<and> calculateResults lib tie_node_1 =
           Inr [\<lparr>r_choice = ''yes'', r_count = 1\<rparr>, \<lparr>r_choice = ''yes'' @ [CHR 0x01], r_count = 1\<rparr>]
       \<and> calculateResults lib tie_node_2 =
           Inr [\<lparr>r_choice = ''yes'' @ [CHR 0x01], r_count = 1\<rparr>, \<lparr>r_choice = ''yes'', r_count = 1\<rparr>]
       \<and> \<not> compareResults
             [\<lparr>r_choice = ''yes'', r_count = 1\<rparr>, \<lparr>r_choice = ''yes'' @ [CHR 0x01], r_count = 1\<rparr>]
             [\<lparr>r_choice = ''yes'' @ [CHR 0x01], r_count = 1\<rparr>, \<lparr>r_choice = ''yes'', r_count = 1\<rparr>]"
proof -
  let ?v = "snd (ballot ''a1'' ''yes'')"
  let ?w = "snd (ballot ''b2'' (''yes'' @ [CHR 0x01]))"
  have l: "toLowerCase (v_choice ?v) = ''yes''"
      "toLowerCase (v_choice ?w) = ''yes'' @ [CHR 0x01]"
    by (simp_all add: ballot_def) code_simp+
  have 1: "calculateResults lib tie_node_1 =
             Inr (tally_results (localeCompare lib) [(''a1'', ?v), (''b2'', ?w)])"
    by (simp add: calculateResults_def tie_node_1_def example_round_def ballot_def)
  have 2: "calculateResults lib tie_node_2 =
             Inr (tally_results (localeCompare lib) [(''b2'', ?w), (''a1'', ?v)])"
    by (simp add: calculateResults_def tie_node_2_def example_round_def ballot_def)
  have 3: "tally_results (localeCompare lib) [(''a1'', ?v), (''b2'', ?w)] =
             [\<lparr>r_choice = ''yes'', r_count = 1\<rparr>, \<lparr>r_choice = ''yes'' @ [CHR 0x01], r_count = 1\<rparr>]"
    using tied_choices_keep_map_order [of "localeCompare lib" ?v ?w "''a1''" "''b2''"] assms(1)
    unfolding l by simp
  have 4: "tally_results (localeCompare lib) [(''b2'', ?w), (''a1'', ?v)] =
             [\<lparr>r_choice = ''yes'' @ [CHR 0x01], r_count = 1\<rparr>, \<lparr>r_choice = ''yes'', r_count = 1\<rparr>]"
    using tied_choices_keep_map_order [of "localeCompare lib" ?w ?v "''b2''" "''a1''"] assms(2)
    unfolding l by simp
  have 5: "mset (lowered (round_map (votes tie_node_1) ''round_1000_alice''))
             = mset (lowered (round_map (votes tie_node_2) ''round_1000_alice''))"
    by (simp add: tie_node_1_def tie_node_2_def round_map_def lowered_def)
  have 6: "\<not> compareResults
             [\<lparr>r_choice = ''yes'', r_count = 1\<rparr>, \<lparr>r_choice = ''yes'' @ [CHR 0x01], r_count = 1\<rparr>]
             [\<lparr>r_choice = ''yes'' @ [CHR 0x01], r_count = 1\<rparr>, \<lparr>r_choice = ''yes'', r_count = 1\<rparr>]"
    by (simp add: compareResults_def)
  show ?thesis
    using 5 6 unfolding 1 2 3 4 by simp
qed

theorem tally_order_follows_map_order_witness:
  "localeCompare example_lib ''yes'' (''yes'' @ [CHR 0x01]) = 0
   \<and> localeCompare example_lib (''yes'' @ [CHR 0x01]) ''yes'' = 0
   \<and> calculateResults example_lib tie_node_1 =
       Inr [\<lparr>r_choice = ''yes'', r_count = 1\<rparr>, \<lparr>r_choice = ''yes'' @ [CHR 0x01], r_count = 1\<rparr>]
   \<and> calculateResults example_lib tie_node_2 =
       Inr [\<lparr>r_choice = ''yes'' @ [CHR 0x01], r_count = 1\<rparr>, \<lparr>r_choice = ''yes'', r_count = 1\<rparr>]
   \<and> calculateResults example_lib tie_node_1 \<noteq> calculateResults example_lib tie_node_2"
proof -
  have h1: "localeCompare example_lib ''yes'' (''yes'' @ [CHR 0x01]) = 0"
    by code_simp
  have h2: "localeCompare example_lib (''yes'' @ [CHR 0x01]) ''yes'' = 0"
    by code_simp
  show ?thesis
    using tally_order_follows_map_order [OF h1 h2] h1 h2 by simp
qed

section \<open>Consensus\<close>

lemma checkForConsensus_cases:
  assumes "currentRound s = Some r" and "phase r = CONSENSUS" and "\<not> consensusAchieved r"
  shows "checkForConsensus s =
           (if length (consensusNodes r) \<ge> length (activePeers s) + 1
            then s\<lparr>currentRound := Some (r\<lparr>consensusAchieved := True\<rparr>),
                   timers := filter (\<lambda>t. Some (fst t) \<noteq> finishTimeout r) (timers s)
                               @ [(nextTimer s, Fin 500, FinishRound)],
                   nextTimer := Suc (nextTimer s)\<rparr>
            else s)"
  using assms
  by (auto simp: checkForConsensus_def getActiveNodeCount_def Let_def setTimeout_def
                 clearIfSet_def clearTimeout_def
           split: option.splits)

lemma handleResultProposal_mismatch:
  assumes "\<forall>mine. calculateResults lib s = Inr mine \<longrightarrow> \<not> compareResults mine theirs"
  shows "state_of (handleResultProposal lib rid theirs sender s) = s"
  using assms
  by (auto simp: handleResultProposal_def split: option.splits sum.splits)

lemma handleResultProposal_match:
  assumes "currentRound s = Some r" and "calculateResults lib s = Inr mine"
    and "compareResults mine theirs"
  shows "handleResultProposal lib (roundId r) theirs sender s =
           Inr (checkForConsensus
                  (s\<lparr>currentRound := Some (r\<lparr>consensusNodes :=
                       set_add (nodeId s) (set_add sender (consensusNodes r))\<rparr>)\<rparr>))"
  using assms
  by (auto simp: handleResultProposal_def set_add_def split: option.splits sum.splits)

text \<open>
  Claim C2. In a round that is in CONSENSUS and has not yet reached consensus,
  \<open>checkForConsensus\<close> sets \<open>consensusAchieved\<close> exactly when the size of
  \<open>consensusNodes\<close> is at least the active node count, which is the size of
  \<open>activePeers\<close> plus one. When it does, the FINISH timer of the round is removed from
  the pending timers and a timer that calls \<open>finishRound\<close> after 500 ms is added;
  otherwise nothing changes. A \<open>RESULT_PROPOSAL\<close> whose tally differs from ours (or
  that arrives when we cannot compute one) leaves the whole state, and so
  \<open>consensusNodes\<close>, as it was; one for the current round whose tally equals ours
  puts its sender and ourselves into \<open>consensusNodes\<close> and then runs this check.
\<close>

theorem consensus_threshold:
  assumes "currentRound s = Some r" and "phase r = CONSENSUS" and "\<not> consensusAchieved r"
  shows "getActiveNodeCount s = length (activePeers s) + 1
       \<and> (\<exists>r'. currentRound (checkForConsensus s) = Some r'
              \<and> consensusAchieved r' = (length (consensusNodes r) \<ge> getActiveNodeCount s))
       \<and> (length (consensusNodes r) \<ge> getActiveNodeCount s \<longrightarrow>
            checkForConsensus s =
              s\<lparr>currentRound := Some (r\<lparr>consensusAchieved := True\<rparr>),
                timers := filter (\<lambda>t. Some (fst t) \<noteq> finishTimeout r) (timers s)
                            @ [(nextTimer s, Fin 500, FinishRound)],
                nextTimer := Suc (nextTimer s)\<rparr>)
       \<and> (length (consensusNodes r) < getActiveNodeCount s \<longrightarrow> checkForConsensus s = s)
       \<and> ((\<forall>mine. calculateResults lib s = Inr mine \<longrightarrow> \<not> compareResults mine theirs) \<longrightarrow>
            state_of (handleResultProposal lib rid theirs sender s) = s)
       \<and> ((\<exists>mine. calculateResults lib s = Inr mine \<and> compareResults mine theirs) \<longrightarrow>
            handleResultProposal lib (roundId r) theirs sender s =
              Inr (checkForConsensus
                     (s\<lparr>currentRound := Some (r\<lparr>consensusNodes :=
                          set_add (nodeId s) (set_add sender (consensusNodes r))\<rparr>)\<rparr>)))"
proof -
  have n: "getActiveNodeCount s = length (activePeers s) + 1"
    by (simp add: getActiveNodeCount_def)
  have m: "(\<exists>mine. calculateResults lib s = Inr mine \<and> compareResults mine theirs) \<longrightarrow>
            handleResultProposal lib (roundId r) theirs sender s =
              Inr (checkForConsensus
                     (s\<lparr>currentRound := Some (r\<lparr>consensusNodes :=
                          set_add (nodeId s) (set_add sender (consensusNodes r))\<rparr>)\<rparr>))"
    using handleResultProposal_match [OF assms(1), of lib _ theirs sender] by blast
  show ?thesis
    unfolding n
    using assms handleResultProposal_mismatch [of lib s theirs rid sender] m
    by (simp add: checkForConsensus_cases [OF assms])
qed

theorem consensus_threshold_witness:
  "checkForConsensus consensus_node =
     consensus_node
       \<lparr>currentRound :=
          Some (example_round\<lparr>phase := CONSENSUS, consensusNodes := [''alice'', ''bob''],
                              consensusAchieved := True\<rparr>),
        timers := [(2, Fin 500, FinishRound)], nextTimer := 3\<rparr>
   \<and> state_of (handleResultProposal example_lib ''round_1000_alice''
                 [\<lparr>r_choice = ''no'', r_count = 3\<rparr>] ''carol'' consensus_node) = consensus_node"
proof -
  let ?r = "example_round\<lparr>phase := CONSENSUS, consensusNodes := [''alice'', ''bob'']\<rparr>"
  have h1: "currentRound consensus_node = Some ?r"
    by (simp add: consensus_node_def)
  have h2: "phase ?r = CONSENSUS" by simp
  have h3: "\<not> consensusAchieved ?r" by (simp add: example_round_def)
  have c: "calculateResults example_lib consensus_node =
             Inr [\<lparr>r_choice = ''yes'', r_count = 2\<rparr>, \<lparr>r_choice = ''no'', r_count = 1\<rparr>]"
    by code_simp
  have m: "\<forall>mine. calculateResults example_lib consensus_node = Inr mine \<longrightarrow>
             \<not> compareResults mine [\<lparr>r_choice = ''no'', r_count = 3\<rparr>]"
    by (simp add: c compareResults_def)
  have g: "length (consensusNodes ?r) \<ge> getActiveNodeCount consensus_node"
    by (simp add: getActiveNodeCount_def consensus_node_def)
  from consensus_threshold [OF h1 h2 h3, where lib = example_lib
         and theirs = "[\<lparr>r_choice = ''no'', r_count = 3\<rparr>]"
         and rid = "''round_1000_alice''" and sender = "''carol''"] g m
  have "checkForConsensus consensus_node =
          consensus_node\<lparr>currentRound := Some (?r\<lparr>consensusAchieved := True\<rparr>),
             timers := filter (\<lambda>t. Some (fst t) \<noteq> finishTimeout ?r) (timers consensus_node)
                         @ [(nextTimer consensus_node, Fin 500, FinishRound)],
             nextTimer := Suc (nextTimer consensus_node)\<rparr>"
    and "state_of (handleResultProposal example_lib ''round_1000_alice''
                    [\<lparr>r_choice = ''no'', r_count = 3\<rparr>] ''carol'' consensus_node) = consensus_node"
    by blast+
  then show ?thesis
    by (simp add: consensus_node_def tally_node_1_def example_node_def example_round_def
                  initial_node_def numeral_2_eq_2 numeral_3_eq_3)
qed

section \<open>Key messages outside the consensus phase\<close>

text \<open>
  Claim C10, as amended. A \<open>BATCH_VOTE_KEYS\<close> or \<open>VOTE_KEY\<close> message is discarded unless
  there is a current round, the \<open>roundId\<close> of the message is the id of that round, and
  the phase of that round is CONSENSUS: \<open>handleBatchVoteKeys\<close> and \<open>handleVoteKey\<close>
  return at once with the node as it was, and all that \<open>handleMessage\<close> has changed
  is the entry of the sender in \<open>nodeRegistry\<close>, which it writes, with the time of
  receipt and the connection, for every message whose \<open>from\<close> field names a node
  other than ourselves. In particular a batch for the current round that arrives
  during VOTING does not reach the key map.
\<close>

theorem key_messages_discarded:
  assumes "\<forall>r. currentRound s = Some r \<longrightarrow> rid \<noteq> roundId r \<or> phase r \<noteq> CONSENSUS"
  shows "handleMessage lib ws (BATCH_VOTE_KEYS rid keys sender) now s =
           Inr (if sender \<noteq> [] \<and> sender \<noteq> nodeId s
                then s\<lparr>nodeRegistry := AList.update sender (now, ws) (nodeRegistry s)\<rparr> else s)
       \<and> handleMessage lib ws (VOTE_KEY rid anonymousVoteId key sender) now s =
           Inr (if sender \<noteq> [] \<and> sender \<noteq> nodeId s
                then s\<lparr>nodeRegistry := AList.update sender (now, ws) (nodeRegistry s)\<rparr> else s)
       \<and> handleBatchVoteKeys lib rid keys sender s = Inr s
       \<and> handleVoteKey lib rid anonymousVoteId key sender s = Inr s"
  using assms
  by (auto simp: handleMessage_def originalHandleMessage_def handleBatchVoteKeys_def
                 handleVoteKey_def
           split: option.splits)

theorem key_messages_discarded_witness:
  "\<forall>lib. handleMessage lib example_ws
            (BATCH_VOTE_KEYS ''round_1000_alice'' [(''a1'', ''k1'')] ''bob'') 2000 example_node
          = Inr (example_node\<lparr>nodeRegistry := [(''bob'', (2000, example_ws))]\<rparr>)
        \<and> handleMessage lib example_ws
            (VOTE_KEY ''round_1000_alice'' ''a1'' ''k1'' ''bob'') 2000 example_node
          = Inr (example_node\<lparr>nodeRegistry := [(''bob'', (2000, example_ws))]\<rparr>)
        \<and> handleBatchVoteKeys lib ''round_1000_alice'' [(''a1'', ''k1'')] ''bob'' example_node
          = Inr example_node
        \<and> handleVoteKey lib ''round_1000_alice'' ''a1'' ''k1'' ''bob'' example_node = Inr example_node"
proof
  fix lib
  have h: "\<forall>r. currentRound example_node = Some r \<longrightarrow>
          ''round_1000_alice'' \<noteq> roundId r \<or> phase r \<noteq> CONSENSUS"
    by (simp add: example_node_def example_round_def)
  have n: "nodeId example_node = ''alice''" "nodeRegistry example_node = []"
    by (simp_all add: example_node_def initial_node_def)
  show "handleMessage lib example_ws
            (BATCH_VOTE_KEYS ''round_1000_alice'' [(''a1'', ''k1'')] ''bob'') 2000 example_node
          = Inr (example_node\<lparr>nodeRegistry := [(''bob'', (2000, example_ws))]\<rparr>)
        \<and> handleMessage lib example_ws
            (VOTE_KEY ''round_1000_alice'' ''a1'' ''k1'' ''bob'') 2000 example_node
          = Inr (example_node\<lparr>nodeRegistry := [(''bob'', (2000, example_ws))]\<rparr>)
        \<and> handleBatchVoteKeys lib ''round_1000_alice'' [(''a1'', ''k1'')] ''bob'' example_node
          = Inr example_node
        \<and> handleVoteKey lib ''round_1000_alice'' ''a1'' ''k1'' ''bob'' example_node = Inr example_node"
    using key_messages_discarded [OF h, of lib example_ws "[(''a1'', ''k1'')]" "''bob''" 2000 "''a1''" "''k1''"]
    by (simp add: n)
qed

text \<open>
  The claim as it is worded fails: alice is in VOTING when a key batch for her round
  arrives from bob. The batch is discarded, but the node is not as it was: bob is now
  in \<open>nodeRegistry\<close>.
\<close>

theorem key_message_updates_nodeRegistry:
  "map_option phase (currentRound example_node) = Some VOTING
   \<and> map_option roundId (currentRound example_node) = Some ''round_1000_alice''
   \<and> nodeRegistry example_node = []
   \<and> nodeRegistry (state_of (handleMessage example_lib example_ws
        (BATCH_VOTE_KEYS ''round_1000_alice'' [(''a1'', ''k1'')] ''bob'') 2000 example_node))
       = [(''bob'', (2000, example_ws))]
   \<and> handleMessage example_lib example_ws
        (BATCH_VOTE_KEYS ''round_1000_alice'' [(''a1'', ''k1'')] ''bob'') 2000 example_node
       \<noteq> Inr example_node"
  by (simp add: handleMessage_def originalHandleMessage_def handleBatchVoteKeys_def
                example_node_def example_round_def initial_node_def node.defs)

section \<open>Starting and joining a round\<close>

lemma startVotingRound_created:
  assumes "\<forall>r. currentRound s = Some r \<longrightarrow> phase r = FINISHED"
  shows "\<exists>rid s' r'. startVotingRound tp ac v now s = (Some rid, s')
         \<and> currentRound s' = Some r'
         \<and> votingTimeSeconds r' = validVotingTime v
         \<and> duration r' = js_scale (validVotingTime v) 1000
         \<and> timers s' = timers s @
              [(nextTimer s, Math_round (js_scale (js_scale (validVotingTime v) (8 / 10)) 1000),
                EnterConsensusPhase),
               (Suc (nextTimer s), js_scale (validVotingTime v) 1000, FinishRound)]"
  using assms
  by (auto simp: startVotingRound_def Let_def armRoundTimers_def setTimeout_def
                 resetRoundStores_def broadcast_def
           split: option.splits prod.splits)

lemma validVotingTime_cases:
  "validVotingTime v =
     (case v of JNumber x \<Rightarrow> if js_lt x (Fin 30) \<or> js_gt x (Fin 600) then Fin 100 else x
              | _ \<Rightarrow> Fin 100)"
  by (simp add: validVotingTime_def split: js_value.splits)

lemma whole_seconds_delays:
  "js_scale (Fin (of_int n)) 1000 = Fin (of_int (n * 1000))"
  "Math_round (js_scale (js_scale (Fin (of_int n)) (8 / 10)) 1000) = Fin (of_int (n * 800))"
proof -
  show "js_scale (Fin (of_int n)) 1000 = Fin (of_int (n * 1000))"
    by simp
  have "\<lfloor>(of_int n :: rat) * (8 / 10) * 1000 + 1 / 2\<rfloor> = n * 800"
    by (rule floor_unique) simp_all
  then show "Math_round (js_scale (js_scale (Fin (of_int n)) (8 / 10)) 1000) = Fin (of_int (n * 800))"
    by (simp add: round_half_up_def)
qed

text \<open>
  Claim C8, as amended. When \<open>startVotingRound\<close> creates a round (no round is
  active), the voting time of the round is the argument if the argument is of type
  number and is neither below 30 nor above 600, and the default 100 otherwise: so
  29 and 601 give 100, 30 and 600 are kept, and a value that is not a number gives
  100, while a fractional number inside the range is kept. When the voting time is
  a whole number \<open>n\<close> of seconds, the duration of the round is \<open>1000 n\<close> milliseconds,
  the FINISH timer is armed with the duration and the CONSENSUS timer with 80% of
  it, \<open>800 n\<close> milliseconds.
\<close>

theorem startVotingRound_votingTime:
  assumes "\<forall>r. currentRound s = Some r \<longrightarrow> phase r = FINISHED"
  shows "\<exists>rid s' r'. startVotingRound tp ac v now s = (Some rid, s')
         \<and> currentRound s' = Some r'
         \<and> votingTimeSeconds r' =
             (case v of
                JNumber x \<Rightarrow> if js_lt x (Fin 30) \<or> js_gt x (Fin 600) then Fin 100 else x
              | _ \<Rightarrow> Fin 100)
         \<and> (\<forall>n. votingTimeSeconds r' = Fin (of_int n) \<longrightarrow>
               duration r' = Fin (of_int (n * 1000))
               \<and> timers s' = timers s @
                   [(nextTimer s, Fin (of_int (n * 800)), EnterConsensusPhase),
                    (Suc (nextTimer s), Fin (of_int (n * 1000)), FinishRound)])"
proof -
  from startVotingRound_created [OF assms, of tp ac v now]
  obtain rid s' r' where c: "startVotingRound tp ac v now s = (Some rid, s')"
      "currentRound s' = Some r'" "votingTimeSeconds r' = validVotingTime v"
      "duration r' = js_scale (validVotingTime v) 1000"
      "timers s' = timers s @
         [(nextTimer s, Math_round (js_scale (js_scale (validVotingTime v) (8 / 10)) 1000),
           EnterConsensusPhase),
          (Suc (nextTimer s), js_scale (validVotingTime v) 1000, FinishRound)]"
    by blast
  have w: "duration r' = Fin (of_int (n * 1000))
           \<and> timers s' = timers s @
               [(nextTimer s, Fin (of_int (n * 800)), EnterConsensusPhase),
                (Suc (nextTimer s), Fin (of_int (n * 1000)), FinishRound)]"
    if "votingTimeSeconds r' = Fin (of_int n)" for n
    using c(3,4,5) that whole_seconds_delays [of n] by simp
  show ?thesis
    using c(1,2,3) w unfolding validVotingTime_cases [symmetric] by blast
qed

theorem startVotingRound_votingTime_witness:
  "map_option votingTimeSeconds (currentRound (snd
      (startVotingRound ''Q'' None (JNumber (Fin 29)) 1000 (initial_node ''alice'' 3001 []))))
     = Some (Fin 100)
   \<and> map_option votingTimeSeconds (currentRound (snd
      (startVotingRound ''Q'' None (JNumber (Fin 30)) 1000 (initial_node ''alice'' 3001 []))))
     = Some (Fin 30)
   \<and> map_option votingTimeSeconds (currentRound (snd
      (startVotingRound ''Q'' None (JNumber (Fin 600)) 1000 (initial_node ''alice'' 3001 []))))
     = Some (Fin 600)
   \<and> map_option votingTimeSeconds (currentRound (snd
      (startVotingRound ''Q'' None (JNumber (Fin 601)) 1000 (initial_node ''alice'' 3001 []))))
     = Some (Fin 100)
   \<and> map_option votingTimeSeconds (currentRound (snd
      (startVotingRound ''Q'' None (JString ''60'') 1000 (initial_node ''alice'' 3001 []))))
     = Some (Fin 100)
   \<and> map_option duration (currentRound (snd
      (startVotingRound ''Q'' None (JNumber (Fin 30)) 1000 (initial_node ''alice'' 3001 []))))
     = Some (Fin 30000)
   \<and> timers (snd
      (startVotingRound ''Q'' None (JNumber (Fin 30)) 1000 (initial_node ''alice'' 3001 [])))
     = [(0, Fin 24000, EnterConsensusPhase), (1, Fin 30000, FinishRound)]"
proof -
  let ?init = "initial_node ''alice'' 3001 []"
  have h: "\<forall>r. currentRound ?init = Some r \<longrightarrow> phase r = FINISHED"
    by (simp add: initial_node_def)
  have g: "map_option votingTimeSeconds (currentRound (snd
             (startVotingRound ''Q'' None v 1000 ?init)))
           = Some (case v of
                     JNumber x \<Rightarrow> if js_lt x (Fin 30) \<or> js_gt x (Fin 600) then Fin 100 else x
                   | _ \<Rightarrow> Fin 100)" for v
    using startVotingRound_votingTime [OF h, of "''Q''" None v 1000] by auto
  from startVotingRound_votingTime [OF h, of "''Q''" None "JNumber (Fin 30)" 1000]
  obtain rid s' r' where c: "startVotingRound ''Q'' None (JNumber (Fin 30)) 1000 ?init = (Some rid, s')"
      "currentRound s' = Some r'" "votingTimeSeconds r' = Fin 30"
      "\<forall>n. votingTimeSeconds r' = Fin (of_int n) \<longrightarrow>
         duration r' = Fin (of_int (n * 1000))
         \<and> timers s' = timers ?init @
             [(nextTimer ?init, Fin (of_int (n * 800)), EnterConsensusPhase),
              (Suc (nextTimer ?init), Fin (of_int (n * 1000)), FinishRound)]"
    by (auto simp: js_gt_def)
  from c(3) c(4) [rule_format, of 30]
  have d: "duration r' = Fin 30000"
      "timers s' = [(0, Fin 24000, EnterConsensusPhase), (1, Fin 30000, FinishRound)]"
    by (simp_all add: initial_node_def)
  show ?thesis
    unfolding g using c(1,2) d by (simp add: js_gt_def)
qed

text \<open>
  The claim as the spec words it fails: 45.5 is not an integer, and it is kept.
\<close>

theorem votingTime_fraction_kept:
  "map_option votingTimeSeconds (currentRound (snd
      (startVotingRound ''Q'' None (JNumber (Fin (91 / 2))) 1000 (initial_node ''alice'' 3001 []))))
     = Some (Fin (91 / 2))
   \<and> Fin (91 / 2) \<noteq> Fin 100"
  by (simp add: startVotingRound_def initial_node_def validVotingTime_def js_gt_def Let_def
                armRoundTimers_def setTimeout_def resetRoundStores_def broadcast_def)

text \<open>
  What \<open>handleRoundStart\<close> does: a round is accepted exactly when there is no current
  round or its start time is later than that of the current round; then the current
  round is a fresh round in VOTING, the stores of its id are empty, and two new
  timers are armed with the remaining time, at least 100 ms each. Otherwise the
  node is unchanged. The pending timers are kept in both cases.
\<close>

lemma handleRoundStart_cases:
  "handleRoundStart rid tp ac v st sender now s =
     (if (\<forall>r. currentRound s = Some r \<longrightarrow> startTime r < st) then
        (let vts = (case v of None \<Rightarrow> 100 | Some x \<Rightarrow> if x = 0 then 100 else x) in
         s\<lparr>currentRound := Some
              \<lparr>roundId = rid, topic = tp, allowedChoices = ac, startTime = st,
               duration = Fin (vts * 1000), votingTimeSeconds = Fin vts, phase = VOTING,
               roundResults = None, consensusAchieved = False, consensusNodes = [],
               consensusTimeout = Some (nextTimer s), finishTimeout = Some (Suc (nextTimer s))\<rparr>,
           resultProposed := False, keysSharingComplete := False,
           hasVotedInRound := (hasVotedInRound s)(rid \<mapsto> False),
           votes := (votes s)(rid \<mapsto> []),
           encryptedVotes := (encryptedVotes s)(rid \<mapsto> []),
           voteKeys := (voteKeys s)(rid \<mapsto> []),
           timers := timers s @
             [(nextTimer s,
               Fin (max 100 (round_half_up (vts * (8 / 10) * 1000) - of_int (now - st))),
               EnterConsensusPhase),
              (Suc (nextTimer s), Fin (max 100 (vts * 1000 - of_int (now - st))), FinishRound)],
           nextTimer := Suc (Suc (nextTimer s))\<rparr>)
      else s)"
  by (auto simp: handleRoundStart_def Let_def armRoundTimers_def setTimeout_def resetRoundStores_def
           split: option.splits)

text \<open>
  Claim C7, at the input where the code departs from it. Alice started a round at
  time 1000; its timers 0 (CONSENSUS, 32 s) and 1 (FINISH, 40 s) are pending. At time
  2000 she accepts bob's round, started at 2000. The new timers 2 and 3 are armed, but
  timers 0 and 1 of the replaced round are still pending, and when timer 0 fires it
  moves bob's round to CONSENSUS, a second before that round's own timer is due.
\<close>

theorem stale_timers_after_round_start:
  "timers two_rounds_node =
     [(0, Fin 32000, EnterConsensusPhase), (1, Fin 40000, FinishRound),
      (2, Fin 32000, EnterConsensusPhase), (3, Fin 40000, FinishRound)]
   \<and> map_option roundId (currentRound two_rounds_node) = Some ''round_2000_bob''
   \<and> map_option phase (currentRound two_rounds_node) = Some VOTING
   \<and> map_option consensusTimeout (currentRound two_rounds_node) = Some (Some 2)
   \<and> map_option roundId (currentRound (state_of
        (fireTimer example_lib 0 (\<lambda>i. 0) 0 33000 two_rounds_node))) = Some ''round_2000_bob''
   \<and> map_option phase (currentRound (state_of
        (fireTimer example_lib 0 (\<lambda>i. 0) 0 33000 two_rounds_node))) = Some CONSENSUS"
  by code_simp

section \<open>Active peers\<close>

lemma activePeers_processPeerLoop:
  "activePeers (processPeerLoop ps n s) = activePeers s"
  by (induction ps n s rule: processPeerLoop.induct)
     (simp_all add: setTimeout_def Let_def split: option.splits)

text \<open>
  Claim C9, as amended. After \<open>handleMessage\<close> has handled a \<open>HANDSHAKE\<close>, a
  \<open>HANDSHAKE_ACK\<close> or a \<open>HEARTBEAT\<close> whose \<open>from\<close> field names a node other than
  ourselves, that sender is a member of \<open>activePeers\<close>; a \<open>PEER_EXCHANGE_REQUEST\<close>, a
  \<open>PEER_EXCHANGE_RESPONSE\<close> or a frame of an unknown type from such a node leaves
  \<open>activePeers\<close> as it was.
\<close>

theorem handshake_and_heartbeat_activate:
  assumes "f \<noteq> nodeId s"
  shows "(m = HANDSHAKE f p known \<or> m = HANDSHAKE_ACK f p known \<or> m = HEARTBEAT f \<longrightarrow>
            f \<in> set (activePeers (state_of (handleMessage lib ws m now s))))
       \<and> (m = PEER_EXCHANGE_REQUEST f \<or> m = PEER_EXCHANGE_RESPONSE f known \<or> m = OTHER t f \<longrightarrow>
            activePeers (state_of (handleMessage lib ws m now s)) = activePeers s)"
  using assms
  by (auto simp: handleMessage_def originalHandleMessage_def Let_def set_add_def
                 storeAddress_def processPeerExchange_def activePeers_processPeerLoop
                 sendPeerList_def
           split: option.splits)

theorem handshake_and_heartbeat_activate_witness:
  "\<forall>lib. ''bob'' \<in> set (activePeers (state_of
            (handleMessage lib example_ws (HEARTBEAT ''bob'') 5000 example_node)))
        \<and> activePeers (state_of
            (handleMessage lib example_ws (PEER_EXCHANGE_RESPONSE ''bob'' []) 5000 example_node))
          = activePeers example_node"
proof
  fix lib
  have n: "''bob'' \<noteq> nodeId example_node"
    by (simp add: example_node_def initial_node_def)
  show "''bob'' \<in> set (activePeers (state_of
               (handleMessage lib example_ws (HEARTBEAT ''bob'') 5000 example_node)))
        \<and> activePeers (state_of
            (handleMessage lib example_ws (PEER_EXCHANGE_RESPONSE ''bob'' []) 5000 example_node))
          = activePeers example_node"
    using handshake_and_heartbeat_activate [OF n, of "HEARTBEAT ''bob''" None "[]"]
      handshake_and_heartbeat_activate [OF n, of "PEER_EXCHANGE_RESPONSE ''bob'' []" None "[]"]
    by simp
qed

text \<open>
  The claim as the spec words it fails: a \<open>PEER_EXCHANGE_REQUEST\<close> from bob, who is
  not an active peer, is answered and leaves him out of \<open>activePeers\<close>.
\<close>

theorem peer_exchange_request_does_not_activate:
  "msg_from (PEER_EXCHANGE_REQUEST ''bob'') = Some ''bob''
   \<and> ''bob'' \<noteq> nodeId example_node
   \<and> ''bob'' \<notin> set (activePeers (state_of
        (handleMessage example_lib example_ws (PEER_EXCHANGE_REQUEST ''bob'') 5000 example_node)))"
  by (simp add: handleMessage_def originalHandleMessage_def sendPeerList_def example_node_def
                initial_node_def)

section \<open>What the handlers leave alone\<close>

text \<open>
  The handlers are followed through one by one: the mesh handlers, the timers and the
  consensus check leave the stores of the rounds alone, the key handlers and the
  proposal work only on the current round and only in CONSENSUS, and every event
  that neither creates a round nor casts a vote is a quiet step.
\<close>

lemma untouched_refl [simp]: "untouched s s"
  by (simp add: untouched_def)

lemma untouched_trans: "untouched s s1 \<Longrightarrow> untouched s1 s2 \<Longrightarrow> untouched s s2"
  by (simp add: untouched_def)

lemma untouched_consensus_work: "untouched s s' \<Longrightarrow> consensus_work s s'"
  by (simp add: untouched_def consensus_work_def)

lemma consensus_work_refl [simp]: "consensus_work s s"
  by (simp add: consensus_work_def)

lemma consensus_work_trans:
  "consensus_work s s1 \<Longrightarrow> consensus_work s1 s2 \<Longrightarrow> consensus_work s s2"
  by (simp add: consensus_work_def)

lemma untouched_broadcast: "\<forall>em. m \<noteq> ENCRYPTED_VOTE em \<Longrightarrow> untouched s (broadcast m s)"
  by (cases m) (auto simp: untouched_def broadcast_def Let_def enc_frames_def cur_id_def cur_phase_def filter_map o_def split_def)

lemma untouched_notifyGUIClients: "untouched s (notifyGUIClients n now s)"
  by (auto simp: untouched_def notifyGUIClients_def Let_def enc_frames_def cur_id_def cur_phase_def filter_map o_def split_def)

lemma untouched_setTimeout: "untouched s (snd (setTimeout a d s))"
  by (simp add: untouched_def setTimeout_def enc_frames_def cur_id_def cur_phase_def)

lemma untouched_clearTimeout: "untouched s (clearTimeout h s)"
  by (simp add: untouched_def clearTimeout_def enc_frames_def cur_id_def cur_phase_def)

lemma untouched_clearIfSet: "untouched s (clearIfSet h s)"
  by (simp add: clearIfSet_def untouched_clearTimeout split: option.splits)

lemma untouched_checkForConsensus: "untouched s (checkForConsensus s)"
  by (auto simp: checkForConsensus_def Let_def untouched_def setTimeout_def clearIfSet_def clearTimeout_def enc_frames_def cur_id_def cur_phase_def
       split: option.splits)

lemma untouched_handleResultProposal: "untouched s (state_of (handleResultProposal lib rid theirs sender s))"
proof -
  have "untouched s (checkForConsensus (s\<lparr>currentRound := Some r2\<rparr>))"
    if "currentRound s = Some r" "roundId r2 = roundId r" "phase r2 = phase r" for r r2
  proof -
    have "untouched s (s\<lparr>currentRound := Some r2\<rparr>)"
      using that by (simp add: untouched_def enc_frames_def cur_id_def cur_phase_def)
    then show ?thesis
      using untouched_checkForConsensus untouched_trans by blast
  qed
  then show ?thesis
    by (auto simp: handleResultProposal_def Let_def cur_id_def cur_phase_def split: option.splits sum.splits)
qed

lemma consensus_work_decrypt: "consensus_work s (decryptAndProcessVotes lib s)"
  by (auto simp: decryptAndProcessVotes_def consensus_work_def enc_frames_def cur_id_def cur_phase_def split: option.splits)

lemma untouched_then:
  "untouched s x \<Longrightarrow> untouched s (notifyGUIClients n now x)"
  "untouched s x \<Longrightarrow> untouched s (snd (setTimeout a d x))"
  "untouched s x \<Longrightarrow> untouched s (clearTimeout h x)"
  "untouched s x \<Longrightarrow> untouched s (clearIfSet ho x)"
  "untouched s x \<Longrightarrow> untouched s (checkForConsensus x)"
  "untouched s x \<Longrightarrow> untouched s (state_of (handleResultProposal lib rid theirs sender x))"
  using untouched_trans untouched_notifyGUIClients untouched_setTimeout untouched_clearTimeout
    untouched_clearIfSet untouched_checkForConsensus untouched_handleResultProposal
  by blast+

lemma untouched_then_broadcast:
  "\<forall>em. m \<noteq> ENCRYPTED_VOTE em \<Longrightarrow> untouched s x \<Longrightarrow> untouched s (broadcast m x)"
  using untouched_trans untouched_broadcast by blast

lemma consensus_work_then:
  "consensus_work s x \<Longrightarrow> consensus_work s (notifyGUIClients n now x)"
  "consensus_work s x \<Longrightarrow> consensus_work s (snd (setTimeout a d x))"
  "consensus_work s x \<Longrightarrow> consensus_work s (clearTimeout h x)"
  "consensus_work s x \<Longrightarrow> consensus_work s (clearIfSet ho x)"
  "consensus_work s x \<Longrightarrow> consensus_work s (checkForConsensus x)"
  "consensus_work s x \<Longrightarrow> consensus_work s (decryptAndProcessVotes lib x)"
  using consensus_work_trans untouched_consensus_work untouched_notifyGUIClients untouched_setTimeout
    untouched_clearTimeout untouched_clearIfSet untouched_checkForConsensus consensus_work_decrypt
  by blast+

lemma consensus_work_then_broadcast:
  "\<forall>em. m \<noteq> ENCRYPTED_VOTE em \<Longrightarrow> consensus_work s x \<Longrightarrow> consensus_work s (broadcast m x)"
  using consensus_work_trans untouched_consensus_work untouched_broadcast by blast

lemma consensus_work_then_flags:
  "consensus_work s x \<Longrightarrow> consensus_work s (x\<lparr>resultProposed := b\<rparr>)"
  "consensus_work s x \<Longrightarrow> consensus_work s (x\<lparr>keysSharingComplete := b\<rparr>)"
  "consensus_work s x \<Longrightarrow>
     consensus_work s (x\<lparr>currentRound := map_option (\<lambda>c. c\<lparr>consensusNodes := f c\<rparr>) (currentRound x)\<rparr>)"
  by (cases "currentRound x"; simp add: consensus_work_def enc_frames_def cur_id_def cur_phase_def)+

lemma consensus_work_proposeResults:
  "consensus_work s x \<Longrightarrow> consensus_work s (state_of (proposeResults lib x))"
  by (auto simp: proposeResults_def Let_def split: option.splits sum.splits
           intro!: consensus_work_then consensus_work_then_broadcast consensus_work_then_flags)

lemma consensus_work_checkIfReadyToPropose:
  "consensus_work s x \<Longrightarrow> consensus_work s (state_of (checkIfReadyToPropose lib x))"
  by (auto simp: checkIfReadyToPropose_def Let_def split: option.splits
           intro!: consensus_work_then consensus_work_then_flags consensus_work_proposeResults)

lemma consensus_work_then_keys:
  "consensus_work s x \<Longrightarrow> currentRound x = Some r \<Longrightarrow>
     consensus_work s (x\<lparr>voteKeys := (voteKeys x)(roundId r \<mapsto> m)\<rparr>)"
proof -
  assume a: "consensus_work s x" and r: "currentRound x = Some r"
  have "consensus_work x (x\<lparr>voteKeys := (voteKeys x)(roundId r \<mapsto> m)\<rparr>)"
    using r by (simp add: consensus_work_def enc_frames_def cur_id_def cur_phase_def)
  with a show ?thesis by (rule consensus_work_trans)
qed

lemma consensus_work_handleBatchVoteKeys:
  "consensus_work s x \<Longrightarrow> consensus_work s (state_of (handleBatchVoteKeys lib rid keys sender x))"
  by (auto simp: handleBatchVoteKeys_def Let_def split: option.splits
           intro!: consensus_work_then consensus_work_checkIfReadyToPropose consensus_work_then_keys)

lemma consensus_work_handleVoteKey:
  "consensus_work s x \<Longrightarrow> consensus_work s (state_of (handleVoteKey lib rid a k sender x))"
  by (auto simp: handleVoteKey_def Let_def split: option.splits
           intro!: consensus_work_then consensus_work_checkIfReadyToPropose consensus_work_then_keys)

lemma quiet_step_refl [simp]: "quiet_step s s"
  by (simp add: quiet_step_def)

lemma untouched_quiet: "untouched s s' \<Longrightarrow> quiet_step s s'"
  by (simp add: untouched_def quiet_step_def)

lemma quiet_after_untouched: "untouched s x \<Longrightarrow> quiet_step x y \<Longrightarrow> quiet_step s y"
  by (simp add: untouched_def quiet_step_def)

lemma quiet_then_untouched: "quiet_step s x \<Longrightarrow> untouched x y \<Longrightarrow> quiet_step s y"
  by (simp add: untouched_def quiet_step_def)

lemma consensus_work_quiet:
  "consensus_work s s' \<Longrightarrow> cur_phase s = Some CONSENSUS \<Longrightarrow> quiet_step s s'"
  by (simp add: consensus_work_def quiet_step_def)

lemma proposeResults_guard:
  "cur_phase s \<noteq> Some CONSENSUS \<Longrightarrow> proposeResults lib s = Inr s"
  by (auto simp: proposeResults_def cur_phase_def split: option.splits)

lemma checkIfReadyToPropose_guard:
  "cur_phase s \<noteq> Some CONSENSUS \<Longrightarrow> checkIfReadyToPropose lib s = Inr s"
  by (auto simp: checkIfReadyToPropose_def cur_phase_def split: option.splits)

lemma handleBatchVoteKeys_guard:
  "cur_id s \<noteq> Some rid \<or> cur_phase s \<noteq> Some CONSENSUS \<Longrightarrow>
   handleBatchVoteKeys lib rid keys sender s = Inr s"
  by (auto simp: handleBatchVoteKeys_def cur_id_def cur_phase_def split: option.splits)

lemma handleVoteKey_guard:
  "cur_id s \<noteq> Some rid \<or> cur_phase s \<noteq> Some CONSENSUS \<Longrightarrow>
   handleVoteKey lib rid a k sender s = Inr s"
  by (auto simp: handleVoteKey_def cur_id_def cur_phase_def split: option.splits)

lemma quiet_consensus_handler:
  assumes "consensus_work s s'" and "cur_phase s \<noteq> Some CONSENSUS \<Longrightarrow> s' = s"
  shows "quiet_step s s'"
proof (cases "cur_phase s = Some CONSENSUS")
  case True
  with assms(1) show ?thesis by (rule consensus_work_quiet)
next
  case False
  then have "s' = s" by (rule assms(2))
  then show ?thesis by simp
qed

lemma quiet_checkIfReadyToPropose: "quiet_step s (state_of (checkIfReadyToPropose lib s))"
  by (rule quiet_consensus_handler)
     (simp_all add: consensus_work_checkIfReadyToPropose checkIfReadyToPropose_guard)

lemma quiet_handleBatchVoteKeys: "quiet_step s (state_of (handleBatchVoteKeys lib rid keys sender s))"
  by (rule quiet_consensus_handler)
     (simp_all add: consensus_work_handleBatchVoteKeys handleBatchVoteKeys_guard)

lemma quiet_handleVoteKey: "quiet_step s (state_of (handleVoteKey lib rid a k sender s))"
  by (rule quiet_consensus_handler)
     (simp_all add: consensus_work_handleVoteKey handleVoteKey_guard)

lemma quiet_handleEncryptedVote: "quiet_step s (handleEncryptedVote em s)"
  by (auto simp: handleEncryptedVote_def quiet_step_def enc_frames_def cur_id_def cur_phase_def
           split: option.splits)

lemmas frame_defs = untouched_def enc_frames_def cur_id_def cur_phase_def

lemma quiet_enterConsensusPhase: "quiet_step s (state_of (enterConsensusPhase rnd d now s))"
proof (cases "cur_phase s = Some VOTING")
  case False
  then show ?thesis
    by (auto simp: enterConsensusPhase_def cur_phase_def split: option.splits)
next
  case True
  then obtain r where r: "currentRound s = Some r" "phase r = VOTING"
    by (auto simp: cur_phase_def)
  let ?s1 = "s\<lparr>currentRound := Some (r\<lparr>phase := CONSENSUS\<rparr>),
               resultProposed := False, keysSharingComplete := False\<rparr>"
  have q: "quiet_step s ?s1"
    using r by (simp add: quiet_step_def enc_frames_def cur_id_def cur_phase_def)
  have u: "untouched ?s1 (state_of (enterConsensusPhase rnd d now s))"
    using r
    by (auto simp: enterConsensusPhase_def shareAllKeys_def Let_def intro!: untouched_then)
  from q u show ?thesis by (rule quiet_then_untouched)
qed

lemma untouched_verifyMyVote: "untouched s (verifyMyVote s)"
  by (auto simp: verifyMyVote_def frame_defs split: option.splits)

lemma untouched_then_more:
  "untouched s x \<Longrightarrow> untouched s (verifyMyVote x)"
  "untouched s x \<Longrightarrow> untouched s (x\<lparr>results := res\<rparr>)"
  "untouched s x \<Longrightarrow> untouched s (x\<lparr>timers := ts\<rparr>)"
  "untouched s x \<Longrightarrow> untouched s (x\<lparr>nodeRegistry := reg\<rparr>)"
  "untouched s x \<Longrightarrow> untouched s (x\<lparr>duplicateNodeDetected := b\<rparr>)"
  "untouched s x \<Longrightarrow> untouched s (x\<lparr>activePeers := ap\<rparr>)"
  "untouched s x \<Longrightarrow> untouched s (x\<lparr>peers := ps\<rparr>)"
  "untouched s x \<Longrightarrow> untouched s (x\<lparr>guiClients := gs\<rparr>)"
  "untouched s x \<Longrightarrow> untouched s (x\<lparr>knownPeers := ks\<rparr>)"
  "untouched s x \<Longrightarrow> untouched s (x\<lparr>peerAddresses := pa\<rparr>)"
  using untouched_verifyMyVote [of x]
  by (simp_all add: frame_defs)

lemma quiet_finishRound: "quiet_step s (state_of (finishRound lib now s))"
proof (cases "\<exists>r. currentRound s = Some r \<and> phase r \<noteq> FINISHED")
  case False
  then show ?thesis
    by (auto simp: finishRound_def split: option.splits)
next
  case True
  then obtain r where r: "currentRound s = Some r" "phase r \<noteq> FINISHED" by blast
  let ?s2 = "clearIfSet (finishTimeout r) (clearIfSet (consensusTimeout r) s)"
  let ?s3 = "?s2\<lparr>currentRound := Some (r\<lparr>phase := FINISHED\<rparr>)\<rparr>"
  have u0: "untouched s ?s2"
    by (intro untouched_then) simp
  have c: "cur_id ?s2 = Some (roundId r)" "cur_phase ?s2 = Some (phase r)"
    using u0 r by (simp_all add: untouched_def cur_id_def [of s] cur_phase_def [of s])
  have c3: "cur_id ?s3 = Some (roundId r)" "cur_phase ?s3 = Some FINISHED"
    by (simp_all add: cur_id_def cur_phase_def)
  have q0: "quiet_step ?s2 ?s3"
    using r by (simp add: quiet_step_def c c3) (simp add: enc_frames_def)
  have q: "quiet_step s ?s3"
    using u0 q0 by (rule quiet_after_untouched)
  have u4: "untouched ?s3 (?s2\<lparr>currentRound := Some (r\<lparr>phase := FINISHED, roundResults := Some res\<rparr>)\<rparr>)" for res
    by (simp add: frame_defs)
  have u: "untouched ?s3 (state_of (finishRound lib now s))"
    using r u4
    by (auto simp: finishRound_def Let_def split: sum.splits
             intro!: untouched_then untouched_then_more)
  from q u show ?thesis by (rule quiet_then_untouched)
qed

lemma untouched_then_processPeerLoop:
  "untouched z s \<Longrightarrow> untouched z (processPeerLoop ps n s)"
proof (induction ps n s rule: processPeerLoop.induct)
  case (1 n s)
  then show ?case by simp
next
  case (2 peerInfo rest n s)
  have k: "untouched z (snd (setTimeout a d (s\<lparr>knownPeers := ks\<rparr>)))" for a d ks
    using "2.prems" by (simp add: setTimeout_def frame_defs)
  show ?case
    using 2 k
    by (simp add: Let_def split: option.splits)
qed

lemma untouched_sendPeerList: "untouched s (sendPeerList ws s)"
  by (simp add: sendPeerList_def frame_defs)

lemma untouched_storeAddress: "untouched s (storeAddress f p ws s)"
  by (simp add: storeAddress_def frame_defs split: option.splits)

lemma untouched_heartbeat: "untouched s (heartbeat s)"
  by (simp add: heartbeat_def untouched_broadcast)

lemma untouched_connectionClosed: "untouched s (connectionClosed outbound ws s)"
  by (auto simp: connectionClosed_def frame_defs split: option.splits)

lemma untouched_broadcastBatchVoteKeys: "untouched s (state_of (broadcastBatchVoteKeys ks s))"
  by (auto simp: broadcastBatchVoteKeys_def untouched_broadcast split: option.splits)

lemma quiet_originalHandleMessage:
  assumes "\<not> creates_round (Message ws m now) s"
  shows "quiet_step s (state_of (originalHandleMessage lib ws m now s))"
proof (cases m)
  case (HANDSHAKE f p kp)
  have "untouched s (state_of (originalHandleMessage lib ws m now s))"
    unfolding HANDSHAKE
    by (simp add: originalHandleMessage_def Let_def storeAddress_def frame_defs split: option.splits)
  then show ?thesis by (rule untouched_quiet)
next
  case (HANDSHAKE_ACK f p kp)
  have "untouched s (state_of (originalHandleMessage lib ws m now s))"
    unfolding HANDSHAKE_ACK
    by (auto simp: originalHandleMessage_def Let_def processPeerExchange_def
             intro!: untouched_then_processPeerLoop)
       (simp_all add: storeAddress_def frame_defs split: option.splits)
  then show ?thesis by (rule untouched_quiet)
next
  case (PEER_EXCHANGE_REQUEST f)
  then show ?thesis
    by (simp add: originalHandleMessage_def untouched_sendPeerList untouched_quiet)
next
  case (PEER_EXCHANGE_RESPONSE f ps)
  then show ?thesis
    by (simp add: originalHandleMessage_def processPeerExchange_def
                  untouched_then_processPeerLoop untouched_quiet)
next
  case (HEARTBEAT f)
  then show ?thesis
    by (simp add: originalHandleMessage_def untouched_quiet frame_defs)
next
  case (DUPLICATE_NODE_REJECTION x)
  then show ?thesis by (simp add: originalHandleMessage_def)
next
  case (ROUND_START rid tp ac v st sender)
  have "handleRoundStart rid tp ac v st sender now s = s"
    using assms unfolding ROUND_START
    by (auto simp: handleRoundStart_def split: option.splits)
  then show ?thesis
    unfolding ROUND_START
    by (simp add: originalHandleMessage_def untouched_notifyGUIClients untouched_quiet)
next
  case (ENCRYPTED_VOTE em)
  show ?thesis
    unfolding ENCRYPTED_VOTE
    by (simp add: originalHandleMessage_def Let_def)
       (rule quiet_then_untouched [OF quiet_handleEncryptedVote untouched_notifyGUIClients])
next
  case (BATCH_VOTE_KEYS rid ks f)
  then show ?thesis
    by (simp add: originalHandleMessage_def quiet_handleBatchVoteKeys)
next
  case (VOTE_KEY rid a k f)
  then show ?thesis
    by (simp add: originalHandleMessage_def quiet_handleVoteKey)
next
  case (RESULT_PROPOSAL rid res n f)
  then show ?thesis
    by (simp add: originalHandleMessage_def untouched_handleResultProposal untouched_quiet)
next
  case (OTHER t f)
  then show ?thesis by (simp add: originalHandleMessage_def)
qed

lemma creates_round_registry:
  "creates_round (Message ws m now) (s\<lparr>nodeRegistry := reg\<rparr>) = creates_round (Message ws m now) s"
  by (cases m) simp_all

lemma quiet_handleMessage:
  assumes "\<not> creates_round (Message ws m now) s"
  shows "quiet_step s (state_of (handleMessage lib ws m now s))"
proof (cases "isHandshake m \<and> msg_from m = Some (nodeId s)")
  case True
  then show ?thesis
    by (simp add: handleMessage_def untouched_quiet frame_defs)
next
  case False
  define s1 where "s1 = (case msg_from m of
                    None \<Rightarrow> s
                  | Some sender \<Rightarrow>
                      if sender \<noteq> [] \<and> sender \<noteq> nodeId s
                      then s\<lparr>nodeRegistry := AList.update sender (now, ws) (nodeRegistry s)\<rparr>
                      else s)"
  have u: "untouched s s1"
    by (simp add: s1_def frame_defs split: option.splits)
  have c: "\<not> creates_round (Message ws m now) s1"
    using assms by (simp add: s1_def creates_round_registry split: option.splits)
  have h: "handleMessage lib ws m now s =
             (case m of
                DUPLICATE_NODE_REJECTION existing \<Rightarrow>
                  Inr (snd (setTimeout ProcessExit (Fin 3000) (s1\<lparr>duplicateNodeDetected := True\<rparr>)))
              | _ \<Rightarrow> originalHandleMessage lib ws m now s1)"
  proof -
    from False have nc: "(isHandshake m \<and> msg_from m = Some (nodeId s)) = False" by simp
    show ?thesis
      unfolding handleMessage_def s1_def Let_def nc by simp
  qed
  show ?thesis
  proof (cases "\<exists>x. m = DUPLICATE_NODE_REJECTION x")
    case True
    then obtain x where m: "m = DUPLICATE_NODE_REJECTION x" by blast
    have e: "state_of (handleMessage lib ws m now s) =
               snd (setTimeout ProcessExit (Fin 3000) (s1\<lparr>duplicateNodeDetected := True\<rparr>))"
      using h m by simp
    have "untouched s (state_of (handleMessage lib ws m now s))"
      unfolding e using u
      by (intro untouched_then untouched_then_more)
    then show ?thesis by (rule untouched_quiet)
  next
    case False
    then have "handleMessage lib ws m now s = originalHandleMessage lib ws m now s1"
      unfolding h by (cases m) simp_all
    then show ?thesis
      using quiet_after_untouched [OF u quiet_originalHandleMessage [OF c]] by simp
  qed
qed

lemma quiet_fireTimer: "quiet_step s (state_of (fireTimer lib h rnd d now s))"
proof (cases "map_of (timers s) h")
  case None
  then show ?thesis by (simp add: fireTimer_def)
next
  case (Some da)
  obtain dl action where da: "da = (dl, action)" by (cases da)
  let ?s1 = "s\<lparr>timers := filter (\<lambda>t. fst t \<noteq> h) (timers s)\<rparr>"
  have u: "untouched s ?s1" by (simp add: frame_defs)
  have "quiet_step ?s1 (state_of (fireTimer lib h rnd d now s))"
    using Some da
    by (cases action)
       (simp_all add: fireTimer_def quiet_enterConsensusPhase quiet_finishRound
          quiet_checkIfReadyToPropose untouched_broadcastBatchVoteKeys untouched_quiet)
  with u show ?thesis by (rule quiet_after_untouched)
qed

lemma castVote_cases:
  "castVote lib choice key iv a now s =
     (case currentRound s of
        None \<Rightarrow> (NoActiveVotingRound, s)
      | Some r \<Rightarrow>
          if phase r \<noteq> VOTING then (NoActiveVotingRound, s)
          else if hasVotedInRound s (roundId r) = Some True then (AlreadyVoted, s)
          else if (\<exists>cs. allowedChoices r = Some cs \<and> toLowerCase choice \<notin> toLowerCase ` set cs)
          then (InvalidChoice, s)
          else (VoteCast,
            (broadcast (ENCRYPTED_VOTE
               \<lparr>ev_roundId = roundId r, ev_anonymousVoteId = a,
                ev_encryptedData = ec_encryptedData (encryptVote lib choice (roundId r) key iv a now),
                ev_iv = iv, ev_timestamp = now,
                ev_signature = sha256_hex lib (nodeId s @ ''_'' @ roundId r @ ''_'' @
                    ec_encryptedData (encryptVote lib choice (roundId r) key iv a now))\<rparr>)
               (s\<lparr>hasVotedInRound := (hasVotedInRound s)(roundId r \<mapsto> True),
                  voteKeys := (voteKeys s)(roundId r \<mapsto>
                     AList.update a \<lparr>kd_key = key, kd_submittedBy = Some (nodeId s), kd_keyProvider = None\<rparr>
                       (round_map (voteKeys s) (roundId r))),
                  myVoteTracking := (myVoteTracking s)(roundId r \<mapsto>
                     \<lparr>vt_anonymousVoteId = a, vt_choice = choice, vt_timestamp = now, vt_verified = False\<rparr>)\<rparr>))
              \<lparr>encryptedVotes := (encryptedVotes s)(roundId r \<mapsto>
                  AList.update a
                    \<lparr>ev_roundId = roundId r, ev_anonymousVoteId = a,
                     ev_encryptedData = ec_encryptedData (encryptVote lib choice (roundId r) key iv a now),
                     ev_iv = iv, ev_timestamp = now,
                     ev_signature = sha256_hex lib (nodeId s @ ''_'' @ roundId r @ ''_'' @
                        ec_encryptedData (encryptVote lib choice (roundId r) key iv a now))\<rparr>
                    (round_map (encryptedVotes s) (roundId r)))\<rparr>))"
  by (auto simp: castVote_def Let_def encryptVote_def signMessage_def broadcast_def
           split: option.splits)

lemma quiet_step_event:
  assumes "\<not> creates_round e s" and "\<not> accepted_vote lib e s"
  shows "quiet_step s (state_of (step lib e s))"
proof (cases e)
  case (Message ws m now)
  then show ?thesis using assms(1) by (simp add: step_def quiet_handleMessage)
next
  case (CastVote c k iv a now)
  then have "fst (castVote lib c k iv a now s) \<noteq> VoteCast"
    using assms(2) by simp
  then have "snd (castVote lib c k iv a now s) = s"
    by (auto simp: castVote_def Let_def split: option.splits if_splits)
  then show ?thesis using CastVote by (simp add: step_def)
next
  case (StartVotingRound tp ac v now)
  then have "snd (startVotingRound tp ac v now s) = s"
    using assms(1) by (auto simp: startVotingRound_def split: option.splits)
  then show ?thesis using StartVotingRound by (simp add: step_def)
next
  case (TimerFires h rnd d now)
  then show ?thesis by (simp add: step_def quiet_fireTimer)
next
  case Heartbeat
  then show ?thesis by (simp add: step_def untouched_heartbeat untouched_quiet)
next
  case (ConnectionClosed outbound ws)
  then show ?thesis by (simp add: step_def untouched_connectionClosed untouched_quiet)
qed

lemma fresh_then_untouched: "fresh_round rid s x \<Longrightarrow> untouched x y \<Longrightarrow> fresh_round rid s y"
  by (simp add: fresh_round_def untouched_def)

lemma fresh_after_untouched: "untouched s x \<Longrightarrow> fresh_round rid x y \<Longrightarrow> fresh_round rid s y"
  by (simp add: fresh_round_def untouched_def)

lemma fresh_handleRoundStart:
  assumes "creates_round (Message ws (ROUND_START rid tp ac v st sender) now) s"
  shows "fresh_round rid s (handleRoundStart rid tp ac v st sender now s)"
proof -
  have a: "\<forall>r. currentRound s = Some r \<longrightarrow> startTime r < st"
    using assms by (auto split: option.splits)
  show ?thesis
    unfolding handleRoundStart_cases using a
    by (simp add: Let_def fresh_round_def enc_frames_def cur_id_def cur_phase_def)
qed

lemma fresh_startVotingRound:
  assumes "creates_round (StartVotingRound tp ac v now) s"
  shows "fresh_round (''round_'' @ decimal now @ ''_'' @ nodeId s) s (snd (startVotingRound tp ac v now s))"
proof -
  have a: "\<not> (case currentRound s of None \<Rightarrow> False | Some r \<Rightarrow> phase r \<noteq> FINISHED)"
    using assms by (auto split: option.splits)
  let ?rid = "''round_'' @ decimal now @ ''_'' @ nodeId s"
  let ?v = "validVotingTime v"
  let ?round = "\<lparr>roundId = ?rid, topic = tp, allowedChoices = ac,
                     startTime = now, duration = js_scale ?v 1000, votingTimeSeconds = ?v,
                     phase = VOTING, roundResults = None, consensusAchieved = False,
                     consensusNodes = [], consensusTimeout = None, finishTimeout = None\<rparr>"
  let ?s1 = "resetRoundStores ?rid (s\<lparr>currentRound := Some ?round\<rparr>)"
  have f1: "fresh_round ?rid s ?s1"
    by (simp add: resetRoundStores_def fresh_round_def enc_frames_def cur_id_def cur_phase_def)
  have u: "untouched ?s1 (armRoundTimers cd fd (broadcast (ROUND_START ?rid tp ac (json_number ?v) now (nodeId ?s1)) ?s1))" for cd fd
  proof -
    have b: "untouched ?s1 (broadcast (ROUND_START ?rid tp ac (json_number ?v) now (nodeId ?s1)) ?s1)"
      by (rule untouched_broadcast) simp
    have "untouched x (armRoundTimers cd fd x)" for x
      by (cases "currentRound x")
         (simp_all add: armRoundTimers_def setTimeout_def Let_def frame_defs)
    with b show ?thesis using untouched_trans by blast
  qed
  have "snd (startVotingRound tp ac v now s) =
          armRoundTimers (Math_round (js_scale (js_scale ?v (8 / 10)) 1000)) (js_scale ?v 1000)
            (broadcast (ROUND_START ?rid tp ac (json_number ?v) now (nodeId ?s1)) ?s1)"
    using a by (simp add: startVotingRound_def Let_def)
  then show ?thesis
    using fresh_then_untouched [OF f1 u] by simp
qed

lemma fresh_step_event:
  assumes "creates_round e s"
  shows "fresh_round (new_round_id e s) s (state_of (step lib e s))"
proof (cases e)
  case (StartVotingRound tp ac v now)
  then show ?thesis
    using assms fresh_startVotingRound [of tp ac v now s] by (simp add: step_def)
next
  case (Message ws m now)
  from assms Message obtain rid tp ac v st sender where m: "m = ROUND_START rid tp ac v st sender"
    by (cases m) simp_all
  define s1 where "s1 = (if sender \<noteq> [] \<and> sender \<noteq> nodeId s
                      then s\<lparr>nodeRegistry := AList.update sender (now, ws) (nodeRegistry s)\<rparr>
                      else s)"
  have u: "untouched s s1" by (simp add: s1_def frame_defs)
  have c: "creates_round (Message ws (ROUND_START rid tp ac v st sender) now) s1"
    using assms Message m by (simp add: s1_def)
  have "state_of (handleMessage lib ws m now s) =
          notifyGUIClients
            (ROUND_START_EVENT rid tp ac (case v of None \<Rightarrow> 100 | Some x \<Rightarrow> if x = 0 then 100 else x) st sender)
            now (handleRoundStart rid tp ac v st sender now s1)"
    by (simp add: handleMessage_def originalHandleMessage_def m s1_def Let_def)
  moreover have "fresh_round rid s1 (notifyGUIClients n now (handleRoundStart rid tp ac v st sender now s1))" for n
    using fresh_then_untouched [OF fresh_handleRoundStart [OF c] untouched_notifyGUIClients] .
  ultimately have "fresh_round rid s (state_of (handleMessage lib ws m now s))"
    using fresh_after_untouched [OF u] by simp
  then show ?thesis using Message m by (simp add: step_def)
qed (use assms in simp_all)

lemma accepted_vote_cast_pair: "accepted_vote lib e s = (cast_pair lib e s \<noteq> None)"
  by (cases e) simp_all

lemma broadcast_fields:
  "nodeId (broadcast m s) = nodeId s" "currentRound (broadcast m s) = currentRound s"
  "hasVotedInRound (broadcast m s) = hasVotedInRound s" "votes (broadcast m s) = votes s"
  "voteKeys (broadcast m s) = voteKeys s" "encryptedVotes (broadcast m s) = encryptedVotes s"
  by (simp_all add: broadcast_def Let_def)

lemma vote_cast_castVote:
  assumes "fst (castVote lib choice key iv a now s) = VoteCast"
  shows "vote_cast a key s (snd (castVote lib choice key iv a now s))"
proof -
  from assms obtain r where r: "currentRound s = Some r" "phase r = VOTING"
      "hasVotedInRound s (roundId r) \<noteq> Some True"
      "\<not> (\<exists>cs. allowedChoices r = Some cs \<and> toLowerCase choice \<notin> toLowerCase ` set cs)"
    by (auto simp: castVote_cases split: option.splits if_splits)
  from r(4) have nc: "(\<exists>cs. allowedChoices r = Some cs \<and> toLowerCase choice \<notin> toLowerCase ` set cs) = False"
    by simp
  show ?thesis
    unfolding vote_cast_def castVote_cases
    using r(1,2,3)
    by (intro exI [of _ "roundId r"]) (simp add: nc cur_id_def cur_phase_def broadcast_fields)
qed

lemma step_cast_pair:
  assumes "cast_pair lib e s = Some (a, k)"
  shows "vote_cast a k s (state_of (step lib e s))"
proof -
  from assms obtain c iv now where e: "e = CastVote c k iv a now"
    by (cases e) (auto split: if_splits)
  with assms have "fst (castVote lib c k iv a now s) = VoteCast"
    by (auto split: if_splits)
  then show ?thesis
    using vote_cast_castVote e by (simp add: step_def)
qed

lemma vote_cast_not_creation: "cast_pair lib e s = Some p \<Longrightarrow> \<not> creates_round e s"
  by (cases e) simp_all

lemma run_Cons:
  "run lib (e # es) s = Inr s' \<Longrightarrow> run lib es (state_of (step lib e s)) = Inr s'"
  by (cases "step lib e s") auto

section \<open>One vote per round\<close>

lemma already_voted_kept:
  assumes "cur_id s = Some rid" "hasVotedInRound s rid = Some True" "\<not> creates_round e s"
  shows "cur_id (state_of (step lib e s)) = Some rid
       \<and> hasVotedInRound (state_of (step lib e s)) rid = Some True
       \<and> enc_frames (state_of (step lib e s)) = enc_frames s"
proof -
  have "\<not> accepted_vote lib e s"
  proof
    assume "accepted_vote lib e s"
    then obtain a k where "cast_pair lib e s = Some (a, k)"
      by (auto simp: accepted_vote_cast_pair)
    then have "vote_cast a k s (state_of (step lib e s))" by (rule step_cast_pair)
    then show False using assms(1,2) by (auto simp: vote_cast_def)
  qed
  with assms(3) have "quiet_step s (state_of (step lib e s))"
    by (rule quiet_step_event)
  then show ?thesis using assms(1,2) by (simp add: quiet_step_def)
qed

lemma already_voted_run:
  assumes "cur_id s = Some rid" "hasVotedInRound s rid = Some True"
    "same_round_run lib es s" "run lib es s = Inr s'"
  shows "cur_id s' = Some rid \<and> hasVotedInRound s' rid = Some True \<and> enc_frames s' = enc_frames s"
  using assms
proof (induction es arbitrary: s)
  case Nil
  then show ?case by simp
next
  case (Cons e es)
  let ?s1 = "state_of (step lib e s)"
  from Cons.prems(3) have nc: "\<not> creates_round e s" and sr: "same_round_run lib es ?s1"
    by simp_all
  from already_voted_kept [OF Cons.prems(1,2) nc, of lib]
  have k: "cur_id ?s1 = Some rid" "hasVotedInRound ?s1 rid = Some True"
      "enc_frames ?s1 = enc_frames s"
    by simp_all
  from Cons.IH [OF k(1,2) sr run_Cons [OF Cons.prems(4)]] k(3)
  show ?case by simp
qed

lemma castVote_rejected_iff:
  "(fst (castVote lib choice key iv a now s) \<noteq> VoteCast) =
     (currentRound s = None
      \<or> (\<exists>r. currentRound s = Some r
             \<and> (phase r \<noteq> VOTING \<or> hasVotedInRound s (roundId r) = Some True
                 \<or> (\<exists>cs. allowedChoices r = Some cs \<and> toLowerCase choice \<notin> toLowerCase ` set cs))))"
  by (auto simp: castVote_cases split: option.splits)

lemma castVote_rejected_unchanged:
  "fst (castVote lib choice key iv a now s) \<noteq> VoteCast \<Longrightarrow> snd (castVote lib choice key iv a now s) = s"
  by (auto simp: castVote_cases split: option.splits if_splits)

lemma castVote_accepted_outbox:
  assumes "fst (castVote lib choice key iv a now s) = VoteCast"
  shows "\<exists>em. ev_anonymousVoteId em = a
           \<and> outbox (snd (castVote lib choice key iv a now s)) = outbox (broadcast (ENCRYPTED_VOTE em) s)"
proof -
  from assms obtain r where r: "currentRound s = Some r" "phase r = VOTING"
      "hasVotedInRound s (roundId r) \<noteq> Some True"
      "\<not> (\<exists>cs. allowedChoices r = Some cs \<and> toLowerCase choice \<notin> toLowerCase ` set cs)"
    by (auto simp: castVote_cases split: option.splits if_splits)
  from r(4) have nc: "(\<exists>cs. allowedChoices r = Some cs \<and> toLowerCase choice \<notin> toLowerCase ` set cs) = False"
    by simp
  let ?em = "\<lparr>ev_roundId = roundId r, ev_anonymousVoteId = a,
                ev_encryptedData = ec_encryptedData (encryptVote lib choice (roundId r) key iv a now),
                ev_iv = iv, ev_timestamp = now,
                ev_signature = sha256_hex lib (nodeId s @ ''_'' @ roundId r @ ''_'' @
                    ec_encryptedData (encryptVote lib choice (roundId r) key iv a now))\<rparr>"
  have "outbox (snd (castVote lib choice key iv a now s)) = outbox (broadcast (ENCRYPTED_VOTE ?em) s)"
    unfolding castVote_cases using r(1,2,3)
    by (simp add: nc) (simp add: broadcast_def Let_def)
  then show ?thesis
    by (intro exI [of _ ?em]) simp
qed

lemma castVote_then_rejected:
  assumes "fst (castVote lib choice key iv a now s) = VoteCast"
    and "same_round_run lib es (snd (castVote lib choice key iv a now s))"
    and "run lib es (snd (castVote lib choice key iv a now s)) = Inr s''"
  shows "enc_frames s'' = enc_frames (snd (castVote lib choice key iv a now s))
       \<and> fst (castVote lib c' k' iv' a' now' s'') \<noteq> VoteCast
       \<and> snd (castVote lib c' k' iv' a' now' s'') = s''"
proof -
  let ?s' = "snd (castVote lib choice key iv a now s)"
  from vote_cast_castVote [OF assms(1)] obtain rid where
    v: "cur_id ?s' = Some rid" "hasVotedInRound ?s' rid = Some True"
    by (auto simp: vote_cast_def cur_id_def)
  from already_voted_run [OF v assms(2,3)]
  have k: "cur_id s'' = Some rid" "hasVotedInRound s'' rid = Some True"
      "enc_frames s'' = enc_frames ?s'"
    by simp_all
  have "fst (castVote lib c' k' iv' a' now' s'') \<noteq> VoteCast"
    using k(1,2) unfolding castVote_rejected_iff by (auto simp: cur_id_def)
  then show ?thesis
    using k(3) castVote_rejected_unchanged by blast
qed

text \<open>
  Claim C4. \<open>castVote\<close> rejects the vote exactly when there is no current round, or
  the round is not in VOTING, or the node has already voted in it, or the round has a
  list of allowed choices and the choice, in lower case, is not among them in lower
  case. A rejected call leaves the node unchanged, so nothing is sent. An accepted
  call sets \<open>hasVotedInRound\<close> for the round and sends what one broadcast of a single
  \<open>ENCRYPTED_VOTE\<close> with the new anonymous id sends; after it, along every run of
  events that stays within the round, no further \<open>ENCRYPTED_VOTE\<close> frame is sent and
  every call of \<open>castVote\<close> is rejected without effect.
\<close>

theorem castVote_policy:
  "(fst (castVote lib choice key iv a now s) \<noteq> VoteCast) =
     (currentRound s = None
      \<or> (\<exists>r. currentRound s = Some r
             \<and> (phase r \<noteq> VOTING \<or> hasVotedInRound s (roundId r) = Some True
                 \<or> (\<exists>cs. allowedChoices r = Some cs \<and> toLowerCase choice \<notin> toLowerCase ` set cs))))
   \<and> (fst (castVote lib choice key iv a now s) \<noteq> VoteCast \<longrightarrow>
        snd (castVote lib choice key iv a now s) = s)
   \<and> (fst (castVote lib choice key iv a now s) = VoteCast \<longrightarrow>
        (\<exists>r. currentRound s = Some r
            \<and> currentRound (snd (castVote lib choice key iv a now s)) = Some r
            \<and> hasVotedInRound (snd (castVote lib choice key iv a now s)) (roundId r) = Some True)
        \<and> (\<exists>em. ev_anonymousVoteId em = a
              \<and> outbox (snd (castVote lib choice key iv a now s))
                  = outbox (broadcast (ENCRYPTED_VOTE em) s))
        \<and> (\<forall>es s''. same_round_run lib es (snd (castVote lib choice key iv a now s)) \<longrightarrow>
              run lib es (snd (castVote lib choice key iv a now s)) = Inr s'' \<longrightarrow>
              enc_frames s'' = enc_frames (snd (castVote lib choice key iv a now s))
              \<and> (\<forall>c' k' iv' a' now'.
                    fst (castVote lib c' k' iv' a' now' s'') \<noteq> VoteCast
                    \<and> snd (castVote lib c' k' iv' a' now' s'') = s'')))"
proof -
  have 3: "\<exists>r. currentRound s = Some r
            \<and> currentRound (snd (castVote lib choice key iv a now s)) = Some r
            \<and> hasVotedInRound (snd (castVote lib choice key iv a now s)) (roundId r) = Some True"
    if "fst (castVote lib choice key iv a now s) = VoteCast"
    using vote_cast_castVote [OF that]
    by (cases "currentRound s") (auto simp: vote_cast_def cur_id_def)
  show ?thesis
    using castVote_rejected_iff [of lib choice key iv a now s]
      castVote_rejected_unchanged [of lib choice key iv a now s]
      3 castVote_accepted_outbox [of lib choice key iv a now s]
      castVote_then_rejected [of lib choice key iv a now s]
    by blast
qed

theorem castVote_policy_witness:
  "fst (castVote example_lib ''Yes'' ''k1'' ''iv1'' ''a1'' 1500 example_node) = VoteCast
   \<and> fst (castVote example_lib ''no'' ''k2'' ''iv2'' ''a2'' 1600
            (snd (castVote example_lib ''Yes'' ''k1'' ''iv1'' ''a1'' 1500 example_node))) \<noteq> VoteCast
   \<and> fst (castVote example_lib ''maybe'' ''k1'' ''iv1'' ''a1'' 1500 example_node) \<noteq> VoteCast
   \<and> snd (castVote example_lib ''maybe'' ''k1'' ''iv1'' ''a1'' 1500 example_node) = example_node"
proof -
  have l: "toLowerCase ''Yes'' = ''yes''" "toLowerCase ''yes'' = ''yes''"
      "toLowerCase ''no'' = ''no''" "toLowerCase ''maybe'' = ''maybe''"
    by code_simp+
  have c: "currentRound example_node = Some example_round"
    by (simp add: example_node_def)
  have h: "hasVotedInRound example_node (roundId example_round) = Some False"
    by (simp add: example_node_def example_round_def)
  let ?yes = "castVote example_lib ''Yes'' ''k1'' ''iv1'' ''a1'' 1500 example_node"
  let ?maybe = "castVote example_lib ''maybe'' ''k1'' ''iv1'' ''a1'' 1500 example_node"
  have y: "\<not> (currentRound example_node = None
      \<or> (\<exists>r. currentRound example_node = Some r
             \<and> (phase r \<noteq> VOTING \<or> hasVotedInRound example_node (roundId r) = Some True
                 \<or> (\<exists>cs. allowedChoices r = Some cs \<and> toLowerCase ''Yes'' \<notin> toLowerCase ` set cs))))"
    using h by (simp add: c) (simp add: example_round_def l)
  have m: "currentRound example_node = None
      \<or> (\<exists>r. currentRound example_node = Some r
             \<and> (phase r \<noteq> VOTING \<or> hasVotedInRound example_node (roundId r) = Some True
                 \<or> (\<exists>cs. allowedChoices r = Some cs \<and> toLowerCase ''maybe'' \<notin> toLowerCase ` set cs)))"
    by (simp add: c) (simp add: example_round_def l)
  have 1: "fst ?yes = VoteCast"
    using castVote_policy [of example_lib "''Yes''" "''k1''" "''iv1''" "''a1''" 1500 example_node] y
    by blast
  have r: "same_round_run example_lib [] (snd ?yes)" "run example_lib [] (snd ?yes) = Inr (snd ?yes)"
    by simp_all
  have 2: "fst (castVote example_lib ''no'' ''k2'' ''iv2'' ''a2'' 1600 (snd ?yes)) \<noteq> VoteCast"
    using castVote_policy [of example_lib "''Yes''" "''k1''" "''iv1''" "''a1''" 1500 example_node] 1 r
    by blast
  have 3: "fst ?maybe \<noteq> VoteCast \<and> snd ?maybe = example_node"
    using castVote_policy [of example_lib "''maybe''" "''k1''" "''iv1''" "''a1''" 1500 example_node] m
    by blast
  from 1 2 3 show ?thesis by blast
qed

section \<open>A finished round\<close>









section \<open>Key release\<close>

lemma length_swap [simp]: "length (swap i j xs) = length xs"
  by (simp add: swap_def)

lemma mset_swap_list: "i < length xs \<Longrightarrow> j < length xs \<Longrightarrow> mset (swap i j xs) = mset xs"
  unfolding swap_def by (rule mset_swap)

lemma draw_index:
  fixes r :: rat
  assumes "0 \<le> r" "r < 1"
  shows "nat \<lfloor>r * (of_nat n + 1)\<rfloor> \<le> n"
proof -
  have pos: "(0::rat) < of_nat n + 1"
    by (simp add: add_nonneg_pos)
  have "r * (of_nat n + 1) < 1 * (of_nat n + 1)"
    using assms(2) pos by (rule mult_strict_right_mono)
  then have "r * (of_nat n + 1) < of_nat n + 1"
    by simp
  then have "r * (of_nat n + 1) < of_int (int n + 1)"
    by simp
  then have "\<lfloor>r * (of_nat n + 1)\<rfloor> < int n + 1"
    unfolding floor_less_iff .
  then show ?thesis by linarith
qed

lemma mset_shuffleLoop:
  assumes "\<forall>k. 0 \<le> rnd k \<and> rnd k < 1"
  shows "i < length xs \<Longrightarrow> mset (shuffleLoop i rnd xs) = mset xs"
proof (induction i arbitrary: xs)
  case 0
  show ?case by simp
next
  case (Suc i)
  let ?j = "nat \<lfloor>rnd (Suc i) * (of_nat (Suc i) + 1)\<rfloor>"
  have j: "?j \<le> Suc i"
    using assms by (intro draw_index) simp_all
  have "mset (swap (Suc i) ?j xs) = mset xs"
    using Suc.prems j by (intro mset_swap_list) simp_all
  moreover have "mset (shuffleLoop i rnd (swap (Suc i) ?j xs)) = mset (swap (Suc i) ?j xs)"
    using Suc.prems by (intro Suc.IH) simp
  ultimately show ?case by simp
qed

lemma mset_shuffleArray:
  assumes "\<forall>k. 0 \<le> rnd k \<and> rnd k < 1"
  shows "mset (shuffleArray rnd xs) = mset xs"
proof (cases xs)
  case Nil
  then show ?thesis by (simp add: shuffleArray_def)
next
  case (Cons x ys)
  then show ?thesis
    unfolding shuffleArray_def by (intro mset_shuffleLoop [OF assms]) simp
qed

lemma key_pairs_update:
  "key_pairs (AList.update a kd m) = AList.update a (kd_key kd) (key_pairs m)"
  by (induction m) (auto simp: key_pairs_def)

lemma set_update_subset: "set (AList.update a v m) \<subseteq> insert (a, v) (set m)"
  by (induction m) auto

lemma own_keys_step:
  assumes "own_keys s acc"
  shows "own_keys (state_of (step lib e s))
           (if creates_round e s then []
            else case cast_pair lib e s of None \<Rightarrow> acc | Some (a, k) \<Rightarrow> AList.update a k acc)"
proof (cases "creates_round e s")
  case True
  then have "fresh_round (new_round_id e s) s (state_of (step lib e s))"
    by (rule fresh_step_event)
  then show ?thesis
    using True by (simp add: fresh_round_def own_keys_def round_map_def key_pairs_def)
next
  case False
  show ?thesis
  proof (cases "cast_pair lib e s")
    case None
    then have q: "quiet_step s (state_of (step lib e s))"
      using False by (simp add: quiet_step_event accepted_vote_cast_pair)
    have "own_keys (state_of (step lib e s)) acc"
      unfolding own_keys_def
    proof
      assume v: "cur_phase (state_of (step lib e s)) = Some VOTING"
      with q have v0: "cur_phase s = Some VOTING"
        and k: "\<forall>rid. cur_id s = Some rid \<longrightarrow> voteKeys (state_of (step lib e s)) rid = voteKeys s rid"
        and i: "cur_id (state_of (step lib e s)) = cur_id s"
        and n: "nodeId (state_of (step lib e s)) = nodeId s"
        by (simp_all add: quiet_step_def)
      from assms v0 obtain rid where r: "cur_id s = Some rid"
          "key_pairs (round_map (voteKeys s) rid) = acc"
          "\<forall>e \<in> set (round_map (voteKeys s) rid). own_entry s e"
        by (auto simp: own_keys_def)
      from k r(1) have "voteKeys (state_of (step lib e s)) rid = voteKeys s rid" by simp
      then have "round_map (voteKeys (state_of (step lib e s))) rid = round_map (voteKeys s) rid"
        by (simp add: round_map_def)
      with r i n
      show "\<exists>rid. cur_id (state_of (step lib e s)) = Some rid
              \<and> key_pairs (round_map (voteKeys (state_of (step lib e s))) rid) = acc
              \<and> (\<forall>x \<in> set (round_map (voteKeys (state_of (step lib e s))) rid).
                    own_entry (state_of (step lib e s)) x)"
        by (auto simp: own_entry_def)
    qed
    then show ?thesis using False None by simp
  next
    case (Some p)
    obtain a k where p: "p = (a, k)" by (cases p)
    let ?s' = "state_of (step lib e s)"
    from Some p have "vote_cast a k s ?s'"
      using step_cast_pair by simp
    then obtain rid where c: "cur_id s = Some rid" "cur_phase s = Some VOTING"
        "nodeId ?s' = nodeId s" "currentRound ?s' = currentRound s"
        "voteKeys ?s' = (voteKeys s)(rid \<mapsto>
             AList.update a \<lparr>kd_key = k, kd_submittedBy = Some (nodeId s), kd_keyProvider = None\<rparr>
               (round_map (voteKeys s) rid))"
      by (auto simp: vote_cast_def)
    from assms c(1,2) have o: "key_pairs (round_map (voteKeys s) rid) = acc"
        "\<forall>e \<in> set (round_map (voteKeys s) rid). own_entry s e"
      by (auto simp: own_keys_def)
    let ?kd = "\<lparr>kd_key = k, kd_submittedBy = Some (nodeId s), kd_keyProvider = None\<rparr>"
    have m: "round_map (voteKeys ?s') rid = AList.update a ?kd (round_map (voteKeys s) rid)"
      by (simp add: c(5) round_map_def)
    have 1: "key_pairs (round_map (voteKeys ?s') rid) = AList.update a k acc"
      by (simp add: m key_pairs_update o(1))
    have 2: "\<forall>x \<in> set (round_map (voteKeys ?s') rid). own_entry ?s' x"
      using o(2) set_update_subset [of a ?kd "round_map (voteKeys s) rid"]
      by (auto simp: m own_entry_def c(3))
    have "own_keys ?s' (AList.update a k acc)"
      using 1 2 c(1,4) by (auto simp: own_keys_def cur_id_def)
    then show ?thesis using False Some p by simp
  qed
qed

lemma own_keys_run:
  assumes "own_keys s acc" "run lib es s = Inr s'"
  shows "own_keys s' (own_pairs lib es s acc)"
  using assms
proof (induction es arbitrary: s acc)
  case Nil
  then show ?case by simp
next
  case (Cons e es)
  from Cons.IH [OF own_keys_step [OF Cons.prems(1)] run_Cons [OF Cons.prems(2)]]
  show ?case by simp
qed

lemma own_keys_initial: "own_keys (initial_node nid p known) []"
  by (simp add: own_keys_def cur_phase_def initial_node_def)

lemma enterConsensusPhase_voting:
  assumes "currentRound s = Some r" "phase r = VOTING"
  shows "\<exists>s'. enterConsensusPhase rnd d now s = Inr s'
         \<and> cur_phase s' = Some CONSENSUS \<and> cur_id s' = Some (roundId r)
         \<and> timers s' = timers s @
              [(nextTimer s, Fin (d * 1000 + 500),
                BroadcastBatchVoteKeys (shuffleArray rnd (key_pairs (round_map (voteKeys s) (roundId r))))),
               (Suc (nextTimer s), Fin 10000, CheckIfReadyToPropose)]"
  using assms
  by (simp add: enterConsensusPhase_def shareAllKeys_def Let_def setTimeout_def
                notifyGUIClients_def cur_phase_def cur_id_def key_pairs_def)

text \<open>
  Claim C3. Take any run of events from the initial node that ends in a round in
  VOTING, and let the CONSENSUS timer fire with random draws in \<open>[0, 1)\<close>. Then
  \<open>enterConsensusPhase\<close> moves the round to CONSENSUS and arms exactly one timer that
  will broadcast one \<open>BATCH_VOTE_KEYS\<close> frame from this node, after a delay of at least
  500 and less than 1500 ms. The keys of that frame are the Fisher-Yates shuffle of
  the key map of the round, and as a multiset they are the pairs of anonymous id and
  key that the calls of \<open>castVote\<close> of this node generated for this round; every
  entry of the key map at that moment was written by \<open>castVote\<close> of this node, none
  was provided by a peer. (The frame takes its \<open>roundId\<close> from the round that is
  current when the timer fires.)
\<close>

theorem batch_keys_are_own_keys:
  assumes "run lib es (initial_node nid p known) = Inr s"
    and "currentRound s = Some r" and "phase r = VOTING"
    and "\<forall>i. 0 \<le> rnd i \<and> rnd i < 1" and "0 \<le> d" and "d < 1"
  shows "\<exists>allKeys s'. enterConsensusPhase rnd d now s = Inr s'
      \<and> (\<exists>r'. currentRound s' = Some r' \<and> phase r' = CONSENSUS \<and> roundId r' = roundId r)
      \<and> timers s' = timers s @
           [(nextTimer s, Fin (d * 1000 + 500), BroadcastBatchVoteKeys allKeys),
            (Suc (nextTimer s), Fin 10000, CheckIfReadyToPropose)]
      \<and> 500 \<le> d * 1000 + 500 \<and> d * 1000 + 500 < 1500
      \<and> allKeys = shuffleArray rnd (key_pairs (round_map (voteKeys s) (roundId r)))
      \<and> mset allKeys = mset (own_pairs lib es (initial_node nid p known) [])
      \<and> (\<forall>e \<in> set (round_map (voteKeys s) (roundId r)).
            kd_submittedBy (snd e) = Some (nodeId s) \<and> kd_keyProvider (snd e) = None)
      \<and> (\<forall>x r'. currentRound x = Some r' \<longrightarrow>
            broadcastBatchVoteKeys allKeys x
              = Inr (broadcast (BATCH_VOTE_KEYS (roundId r') allKeys (nodeId x)) x))"
proof -
  let ?keys = "key_pairs (round_map (voteKeys s) (roundId r))"
  from enterConsensusPhase_voting [OF assms(2,3), of rnd d now]
  obtain s' where e: "enterConsensusPhase rnd d now s = Inr s'"
      "cur_phase s' = Some CONSENSUS" "cur_id s' = Some (roundId r)"
      "timers s' = timers s @
              [(nextTimer s, Fin (d * 1000 + 500), BroadcastBatchVoteKeys (shuffleArray rnd ?keys)),
               (Suc (nextTimer s), Fin 10000, CheckIfReadyToPropose)]"
    by blast
  from e(2,3) have 1: "\<exists>r'. currentRound s' = Some r' \<and> phase r' = CONSENSUS \<and> roundId r' = roundId r"
    by (cases "currentRound s'") (auto simp: cur_phase_def cur_id_def)
  have o: "own_keys s (own_pairs lib es (initial_node nid p known) [])"
    using own_keys_run [OF own_keys_initial assms(1)] .
  have v: "cur_phase s = Some VOTING" "cur_id s = Some (roundId r)"
    using assms(2,3) by (simp_all add: cur_phase_def cur_id_def)
  from o v have k: "?keys = own_pairs lib es (initial_node nid p known) []"
    and t: "\<forall>e \<in> set (round_map (voteKeys s) (roundId r)). own_entry s e"
    by (auto simp: own_keys_def)
  have 2: "mset (shuffleArray rnd ?keys) = mset (own_pairs lib es (initial_node nid p known) [])"
    using mset_shuffleArray [OF assms(4), of ?keys] k by simp
  have 3: "500 \<le> d * 1000 + 500 \<and> d * 1000 + 500 < 1500"
    using assms(5,6) by simp
  have 4: "\<forall>x r'. currentRound x = Some r' \<longrightarrow>
            broadcastBatchVoteKeys ks x = Inr (broadcast (BATCH_VOTE_KEYS (roundId r') ks (nodeId x)) x)" for ks
    by (simp add: broadcastBatchVoteKeys_def)
  show ?thesis
    using e(1,4) 1 2 3 4 [of "shuffleArray rnd ?keys"] t [unfolded own_entry_def]
    by (intro exI [of _ "shuffleArray rnd ?keys"] exI [of _ s']) simp
qed

lemma run_first_events:
  "run example_lib first_events (initial_node ''alice'' 3001 [])
     = Inr (state_of (run example_lib first_events (initial_node ''alice'' 3001 [])))"
  by (simp add: first_events_def step_def)

theorem batch_keys_are_own_keys_witness:
  "\<exists>allKeys s'.
      enterConsensusPhase (\<lambda>i. 1 / 2) (1 / 2) 33000
        (state_of (run example_lib first_events (initial_node ''alice'' 3001 []))) = Inr s'
      \<and> timers s' = [(0, Fin 32000, EnterConsensusPhase), (1, Fin 40000, FinishRound),
                     (2, Fin 1000, BroadcastBatchVoteKeys allKeys),
                     (3, Fin 10000, CheckIfReadyToPropose)]
      \<and> mset allKeys = {#(''a1'', ''k1'')#}"
proof -
  let ?w = "state_of (run example_lib first_events (initial_node ''alice'' 3001 []))"
  have p: "cur_phase ?w = Some VOTING"
    by code_simp
  then obtain r where r: "currentRound ?w = Some r" "phase r = VOTING"
    by (auto simp: cur_phase_def)
  have d: "\<forall>i::nat. (0::rat) \<le> 1 / 2 \<and> (1 / 2 :: rat) < 1" "(0::rat) \<le> 1 / 2" "(1 / 2 :: rat) < 1"
    by simp_all
  have o: "own_pairs example_lib first_events (initial_node ''alice'' 3001 []) [] = [(''a1'', ''k1'')]"
    by code_simp
  have t: "timers ?w = [(0, Fin 32000, EnterConsensusPhase), (1, Fin 40000, FinishRound)]"
    by code_simp
  have n: "nextTimer ?w = 2"
    by code_simp
  from batch_keys_are_own_keys [OF run_first_events r d, of 33000]
  show ?thesis
    unfolding o t n by (auto simp: numeral_3_eq_3)
qed

end
